theory Spec2Isabelle
  imports
    Main
    "HOL-Library.Char_ord"
    "HOL-Library.List_Lexorder"
    "HOL-Library.Product_Lexorder"
begin

section \<open>SmartCare booking backend: the booking window and availability engine\<close>

text \<open>
  A shallow embedding of \<^verbatim>\<open>src/backend/main.py\<close>. Python strings are \<^typ>\<open>string\<close>,
  lists of characters with code points below 256, which covers every text the service
  itself produces; what Python does with characters beyond U+00FF is outside the model.
  Text columns of the SQLite tables are compared the way SQLite's default BINARY collation
  compares them, which on \<^typ>\<open>string\<close> is the lexicographic order of
  \<^theory_text>\<open>List_Lexorder\<close> over the byte order of \<^theory_text>\<open>Char_ord\<close>.
  The system clock (\<^verbatim>\<open>date.today()\<close>, \<^verbatim>\<open>datetime.now()\<close>) is an explicit argument
  of every operation that reads it. Exceptions are values of type \<open>exn\<close>: a function that
  can raise returns \<open>exn + 'a\<close>, with \<open>Inl\<close> for the exception.
\<close>

subsection \<open>Exceptions\<close>

datatype exn =
    HTTPException (status_code: nat) (detail: string)
  | ValueError
  | OverflowError

abbreviation InvalidFormat_month :: exn where
  "InvalidFormat_month \<equiv> HTTPException 400 ''Invalid month format. Use YYYY-MM''"

abbreviation InvalidFormat_date :: exn where
  "InvalidFormat_date \<equiv> HTTPException 400 ''Invalid date format. Use YYYY-MM-DD''"

abbreviation OutOfRange_date :: exn where
  "OutOfRange_date \<equiv> HTTPException 400 ''Date not allowed. Use today or within next 3 months.''"

abbreviation OutOfRange_month :: exn where
  "OutOfRange_month \<equiv> HTTPException 400 ''Month not allowed. Only current to next 3 months.''"

abbreviation UnknownService :: exn where
  "UnknownService \<equiv> HTTPException 400 ''Invalid service_id''"

abbreviation InvalidSlot :: exn where
  "InvalidSlot \<equiv> HTTPException 400 ''Invalid time slot''"

abbreviation DayFull :: exn where
  "DayFull \<equiv> HTTPException 409 ''This day is FULL for the selected service''"

abbreviation SlotTaken :: exn where
  "SlotTaken \<equiv> HTTPException 409 ''This time slot is already booked''"

abbreviation NotFound :: exn where
  "NotFound \<equiv> HTTPException 404 ''Appointment not found''"

subsection \<open>Decimal digits and zero-padded numbers\<close>

definition digit_char :: "nat \<Rightarrow> char" where
  "digit_char n = char_of (48 + n)"

definition is_digit :: "char \<Rightarrow> bool" where
  "is_digit c \<longleftrightarrow> 48 \<le> (of_char c :: nat) \<and> (of_char c :: nat) \<le> 57"

definition digit_val :: "char \<Rightarrow> nat" where
  "digit_val c = of_char c - 48"

text \<open>\<^verbatim>\<open>%H\<close>, \<^verbatim>\<open>%M\<close>, \<^verbatim>\<open>%m\<close>, \<^verbatim>\<open>%d\<close> of \<^verbatim>\<open>strftime\<close>: two digits, zero padded.\<close>

definition pad2 :: "nat \<Rightarrow> string" where
  "pad2 n = [digit_char (n div 10 mod 10), digit_char (n mod 10)]"

text \<open>\<^verbatim>\<open>%Y\<close> of \<^verbatim>\<open>strftime\<close> for a four-digit year.\<close>

definition pad4 :: "nat \<Rightarrow> string" where
  "pad4 n = [digit_char (n div 1000 mod 10), digit_char (n div 100 mod 10),
             digit_char (n div 10 mod 10), digit_char (n mod 10)]"

subsection \<open>Booking rules and the slot catalog\<close>

definition ALLOWED_MONTHS_AHEAD :: int where
  "ALLOWED_MONTHS_AHEAD = 3"

definition WORK_START_HOUR :: nat where
  "WORK_START_HOUR = 9"

definition WORK_END_HOUR :: nat where
  "WORK_END_HOUR = 17"

definition SLOT_MINUTES :: nat where
  "SLOT_MINUTES = 30"

text \<open>
  A \<^verbatim>\<open>datetime\<close> of the loop in \<^verbatim>\<open>generate_slots\<close> is the number of minutes since
  2000-01-01 00:00; \<^verbatim>\<open>strftime("%H:%M")\<close> prints its hour of the day and its minute.
\<close>

definition strftime_HM :: "nat \<Rightarrow> string" where
  "strftime_HM t = pad2 (t div 60 mod 24) @ '':'' @ pad2 (t mod 60)"

text \<open>The \<^verbatim>\<open>while t < end\<close> loop; the step is positive, so the distance to \<open>end\<close> decreases.\<close>

function generate_slots_loop :: "nat \<Rightarrow> nat \<Rightarrow> string list \<Rightarrow> string list" where
  "generate_slots_loop t end slots =
     (if t < end
      then generate_slots_loop (t + SLOT_MINUTES) end (slots @ [strftime_HM t])
      else slots)"
  by pat_completeness auto
termination
  by (relation "measure (\<lambda>(t, end, slots). end - t)") (auto simp: SLOT_MINUTES_def)

definition generate_slots :: "string list" where
  "generate_slots =
     generate_slots_loop (WORK_START_HOUR * 60 + 0) (WORK_END_HOUR * 60 + 0) []"

definition ALL_SLOTS :: "string list" where
  "ALL_SLOTS = generate_slots"

definition DAILY_CAPACITY :: nat where
  "DAILY_CAPACITY = length ALL_SLOTS"

subsection \<open>Calendar dates\<close>

text \<open>
  A \<^verbatim>\<open>datetime.date\<close>. Python compares dates by year, then month, then day.
  The constructor \<^verbatim>\<open>date(y, m, d)\<close> raises \<^verbatim>\<open>ValueError\<close> outside the years 1 to 9999,
  the months 1 to 12 and the days of the month.
\<close>

datatype date = Date (year: int) (month: int) (day: int)

definition date_key :: "date \<Rightarrow> int \<times> int \<times> int" where
  "date_key d = (year d, month d, day d)"

definition date_lt :: "date \<Rightarrow> date \<Rightarrow> bool" where
  "date_lt a b \<longleftrightarrow> date_key a < date_key b"

definition date_le :: "date \<Rightarrow> date \<Rightarrow> bool" where
  "date_le a b \<longleftrightarrow> date_key a \<le> date_key b"

definition is_leap :: "int \<Rightarrow> bool" where
  "is_leap y \<longleftrightarrow> y mod 4 = 0 \<and> (y mod 100 \<noteq> 0 \<or> y mod 400 = 0)"

definition days_in_month :: "int \<Rightarrow> int \<Rightarrow> int" where
  "days_in_month y m =
     (if m = 2 then (if is_leap y then 29 else 28)
      else if m = 4 \<or> m = 6 \<or> m = 9 \<or> m = 11 then 30
      else 31)"

definition valid_date :: "date \<Rightarrow> bool" where
  "valid_date d \<longleftrightarrow>
     1 \<le> year d \<and> year d \<le> 9999 \<and> 1 \<le> month d \<and> month d \<le> 12 \<and>
     1 \<le> day d \<and> day d \<le> days_in_month (year d) (month d)"

definition mk_date :: "int \<Rightarrow> int \<Rightarrow> int \<Rightarrow> exn + date" where
  "mk_date y m d = (if valid_date (Date y m d) then Inr (Date y m d) else Inl ValueError)"

text \<open>\<^verbatim>\<open>d.replace(day=1)\<close>: day 1 exists in every month, so this cannot raise on a date.\<close>

definition first_day_of_month :: "date \<Rightarrow> date" where
  "first_day_of_month d = Date (year d) (month d) 1"

text \<open>Python's \<^verbatim>\<open>//\<close> and \<^verbatim>\<open>%\<close> round to minus infinity, as \<open>div\<close> and \<open>mod\<close> on \<^typ>\<open>int\<close> do.\<close>

definition add_months :: "date \<Rightarrow> int \<Rightarrow> exn + date" where
  "add_months d months =
     (let y = year d + (month d - 1 + months) div 12;
          m = (month d - 1 + months) mod 12 + 1
      in mk_date y m 1)"

text \<open>\<^verbatim>\<open>d.strftime("%Y-%m-%d")\<close>, for the four-digit years the system clock gives.\<close>

definition strftime_Ymd :: "date \<Rightarrow> string" where
  "strftime_Ymd d =
     pad4 (nat (year d)) @ ''-'' @ pad2 (nat (month d)) @ ''-'' @ pad2 (nat (day d))"

subsection \<open>Parsing: \<^verbatim>\<open>datetime.strptime\<close>\<close>

text \<open>
  \<^verbatim>\<open>strptime\<close> turns the format into a regular expression, matches it at the start of
  the text and raises \<^verbatim>\<open>ValueError\<close> when there is no match or when text remains after
  the match. The directives used here are
  \<^verbatim>\<open>%Y = \d\d\d\d\<close>, \<^verbatim>\<open>%m = 1[0-2]|0[1-9]|[1-9]\<close> and
  \<^verbatim>\<open>%d = 3[0-1]|[1-2]\d|0[1-9]|[1-9]| [1-9]\<close>.
  Each directive is a parser returning all its matches, in the priority order of the
  alternatives, and the match of the whole expression is the first that succeeds, as the
  backtracking matcher finds it. Below U+0100 the decimal digits that \<^verbatim>\<open>\d\<close> matches are
  the ASCII digits.
\<close>

definition in_range :: "char \<Rightarrow> char \<Rightarrow> char \<Rightarrow> bool" where
  "in_range lo hi c \<longleftrightarrow> lo \<le> c \<and> c \<le> hi"

fun re_Y :: "string \<Rightarrow> (nat \<times> string) list" where
  "re_Y (a # b # c # d # rest) =
     (if is_digit a \<and> is_digit b \<and> is_digit c \<and> is_digit d
      then [(1000 * digit_val a + 100 * digit_val b + 10 * digit_val c + digit_val d, rest)]
      else [])"
| "re_Y _ = []"

definition re_two :: "(char \<Rightarrow> bool) \<Rightarrow> (char \<Rightarrow> bool) \<Rightarrow> string \<Rightarrow> (nat \<times> string) list" where
  "re_two p q s =
     (case s of
        a # b # rest \<Rightarrow> (if p a \<and> q b then [(10 * digit_val a + digit_val b, rest)] else [])
      | _ \<Rightarrow> [])"

definition re_one :: "(char \<Rightarrow> bool) \<Rightarrow> string \<Rightarrow> (nat \<times> string) list" where
  "re_one p s = (case s of a # rest \<Rightarrow> (if p a then [(digit_val a, rest)] else []) | _ \<Rightarrow> [])"

definition re_space_one :: "string \<Rightarrow> (nat \<times> string) list" where
  "re_space_one s =
     (case s of
        a # b # rest \<Rightarrow>
          (if a = CHR '' '' \<and> in_range CHR ''1'' CHR ''9'' b then [(digit_val b, rest)] else [])
      | _ \<Rightarrow> [])"

definition re_m :: "string \<Rightarrow> (nat \<times> string) list" where
  "re_m s =
     re_two (\<lambda>c. c = CHR ''1'') (in_range CHR ''0'' CHR ''2'') s @
     re_two (\<lambda>c. c = CHR ''0'') (in_range CHR ''1'' CHR ''9'') s @
     re_one (in_range CHR ''1'' CHR ''9'') s"

definition re_d :: "string \<Rightarrow> (nat \<times> string) list" where
  "re_d s =
     re_two (\<lambda>c. c = CHR ''3'') (in_range CHR ''0'' CHR ''1'') s @
     re_two (in_range CHR ''1'' CHR ''2'') is_digit s @
     re_two (\<lambda>c. c = CHR ''0'') (in_range CHR ''1'' CHR ''9'') s @
     re_one (in_range CHR ''1'' CHR ''9'') s @
     re_space_one s"

definition re_lit :: "char \<Rightarrow> string \<Rightarrow> string list" where
  "re_lit c s = (case s of a # rest \<Rightarrow> (if a = c then [rest] else []) | _ \<Rightarrow> [])"

text \<open>All matches of \<^verbatim>\<open>%Y-%m\<close> and of \<^verbatim>\<open>%Y-%m-%d\<close> at the start of the text.\<close>

definition matches_Ym :: "string \<Rightarrow> ((nat \<times> nat) \<times> string) list" where
  "matches_Ym s =
     concat (map (\<lambda>(y, r1).
       concat (map (\<lambda>r2.
         map (\<lambda>(m, r3). ((y, m), r3)) (re_m r2)) (re_lit CHR ''-'' r1))) (re_Y s))"

definition matches_Ymd :: "string \<Rightarrow> ((nat \<times> nat \<times> nat) \<times> string) list" where
  "matches_Ymd s =
     concat (map (\<lambda>((y, m), r3).
       concat (map (\<lambda>r4.
         map (\<lambda>(d, r5). ((y, m, d), r5)) (re_d r4)) (re_lit CHR ''-'' r3))) (matches_Ym s))"

text \<open>\<^verbatim>\<open>datetime.strptime(ym, "%Y-%m").date()\<close>: the day defaults to 1.\<close>

definition strptime_Ym :: "string \<Rightarrow> exn + date" where
  "strptime_Ym s =
     (case matches_Ym s of
        [] \<Rightarrow> Inl ValueError
      | ((y, m), rest) # _ \<Rightarrow>
          (if rest \<noteq> [] then Inl ValueError else mk_date (int y) (int m) 1))"

text \<open>\<^verbatim>\<open>datetime.strptime(ds, "%Y-%m-%d").date()\<close>.\<close>

definition strptime_Ymd :: "string \<Rightarrow> exn + date" where
  "strptime_Ymd s =
     (case matches_Ymd s of
        [] \<Rightarrow> Inl ValueError
      | ((y, m, d), rest) # _ \<Rightarrow>
          (if rest \<noteq> [] then Inl ValueError else mk_date (int y) (int m) (int d)))"

subsection \<open>Window policy\<close>

definition is_month_allowed :: "date \<Rightarrow> string \<Rightarrow> exn + bool" where
  "is_month_allowed today ym =
     (let cur = first_day_of_month today in
      case add_months cur ALLOWED_MONTHS_AHEAD of
        Inl e \<Rightarrow> Inl e
      | Inr max_month \<Rightarrow>
          (case strptime_Ym ym of
             Inl e \<Rightarrow> Inl InvalidFormat_month
           | Inr r \<Rightarrow>
               (let req = first_day_of_month r
                in Inr (date_le cur req \<and> date_le req max_month))))"

definition is_date_allowed :: "date \<Rightarrow> string \<Rightarrow> exn + bool" where
  "is_date_allowed today ds =
     (let cur = first_day_of_month today in
      case add_months cur ALLOWED_MONTHS_AHEAD of
        Inl e \<Rightarrow> Inl e
      | Inr max_month \<Rightarrow>
          (case strptime_Ymd ds of
             Inl e \<Rightarrow> Inl InvalidFormat_date
           | Inr req \<Rightarrow>
               (if date_lt req today then Inr False
                else if date_lt req cur then Inr False
                else (case add_months max_month 1 of
                        Inl e \<Rightarrow> Inl e
                      | Inr upper \<Rightarrow>
                          (if date_le upper req then Inr False else Inr True)))))"

subsection \<open>The tables\<close>

text \<open>
  The rows of \<^verbatim>\<open>services\<close> and \<^verbatim>\<open>appointments\<close>, in insertion order. The request body
  \<^verbatim>\<open>AppointmentCreate\<close>, a row of \<^verbatim>\<open>appointments\<close> and the response \<^verbatim>\<open>AppointmentOut\<close>
  share their first six fields, so each record extends the one before. The column
  \<^verbatim>\<open>id\<close> of an appointment is \<open>appt_id\<close>; the columns of a service are prefixed.
\<close>

record service =
  svc_id :: int
  svc_name :: string
  duration_minutes :: int

record appointment_create =
  patient_name :: string
  phone :: string
  situation_type :: string
  service_id :: int
  appt_date :: string
  appt_time :: string

record appointment = appointment_create +
  appt_id :: int
  status :: string
  created_at :: string

record appointment_out = appointment +
  service_name :: string

record db_state =
  services :: "service list"
  appointments :: "appointment list"

text \<open>\<^verbatim>\<open>init_db\<close> on a fresh database file: the three seeded services, no appointment.\<close>

definition init_db :: db_state where
  "init_db =
     \<lparr>services =
        [\<lparr>svc_id = 1, svc_name = ''General Consultation'', duration_minutes = 30\<rparr>,
         \<lparr>svc_id = 2, svc_name = ''Lab Services'', duration_minutes = 30\<rparr>,
         \<lparr>svc_id = 3, svc_name = ''Follow-up Consultation'', duration_minutes = 30\<rparr>],
      appointments = []\<rparr>"

text \<open>
  An \<^verbatim>\<open>INTEGER\<close> of SQLite holds 64 bits; binding a Python integer outside that range as a
  statement parameter raises \<^verbatim>\<open>OverflowError\<close>.
\<close>

definition sqlite_int :: "int \<Rightarrow> bool" where
  "sqlite_int i \<longleftrightarrow> - (2 ^ 63) \<le> i \<and> i < 2 ^ 63"

definition get_service :: "int \<Rightarrow> db_state \<Rightarrow> exn + service" where
  "get_service sid db =
     (if \<not> sqlite_int sid then Inl OverflowError
      else
        (case find (\<lambda>s. svc_id s = sid) (services db) of
           None \<Rightarrow> Inl UnknownService
         | Some row \<Rightarrow> Inr row))"

text \<open>
  The two counting queries below bind a service identifier too; each caller has already
  passed it through \<open>get_service\<close>, so it is in range when they run.
\<close>

definition count_booked_for_day :: "int \<Rightarrow> string \<Rightarrow> db_state \<Rightarrow> nat" where
  "count_booked_for_day sid d db =
     length (filter (\<lambda>a. status a = ''booked'' \<and> service_id a = sid \<and> appt_date a = d)
       (appointments db))"

text \<open>The conflict query of \<^verbatim>\<open>create_appointment\<close>: booked rows of exactly this slot.\<close>

definition count_booked_for_slot :: "int \<Rightarrow> string \<Rightarrow> string \<Rightarrow> db_state \<Rightarrow> nat" where
  "count_booked_for_slot sid d t db =
     length (filter (\<lambda>a. status a = ''booked'' \<and> service_id a = sid \<and> appt_date a = d \<and>
                          appt_time a = t) (appointments db))"

text \<open>
  \<^verbatim>\<open>cur.lastrowid\<close> after the insert: the column is \<^verbatim>\<open>AUTOINCREMENT\<close> and no row is ever
  deleted, so the new identifier is one more than the largest in the table, and 1 in an
  empty table.
\<close>

definition lastrowid :: "appointment list \<Rightarrow> int" where
  "lastrowid rows = Max (set (0 # map appt_id rows)) + 1"

text \<open>
  \<^verbatim>\<open>str.strip()\<close>: drops leading and trailing whitespace, the characters below U+0100 that
  \<^verbatim>\<open>str.isspace\<close> accepts: tab to carriage return, the four separators U+001C to U+001F,
  the blank, U+0085 and U+00A0.
\<close>

definition is_space :: "char \<Rightarrow> bool" where
  "is_space c \<longleftrightarrow>
     (of_char c :: nat) \<in> {9, 10, 11, 12, 13, 28, 29, 30, 31, 32, 133, 160}"

definition strip :: "string \<Rightarrow> string" where
  "strip s = rev (dropWhile is_space (rev (dropWhile is_space s)))"

text \<open>The row that the \<^verbatim>\<open>INSERT\<close> statement of \<^verbatim>\<open>create_appointment\<close> adds.\<close>

definition inserted_row :: "appointment_create \<Rightarrow> int \<Rightarrow> string \<Rightarrow> appointment" where
  "inserted_row payload new_id now =
     \<lparr>patient_name = strip (patient_name payload),
      phone = strip (phone payload),
      situation_type = situation_type payload,
      service_id = service_id payload,
      appt_date = appt_date payload,
      appt_time = appt_time payload,
      appt_id = new_id,
      status = ''booked'',
      created_at = now\<rparr>"

subsection \<open>Booking ledger\<close>

text \<open>
  \<^verbatim>\<open>create_appointment\<close>. The clock is read twice: \<open>today\<close> by \<^verbatim>\<open>is_date_allowed\<close> and
  \<open>now\<close>, already printed by \<^verbatim>\<open>isoformat\<close>, for \<^verbatim>\<open>created_at\<close>. Every exception is raised
  before the insert, so a failed call leaves the tables as they were. The length bounds of
  \<^verbatim>\<open>AppointmentCreate\<close> are checked by the framework before the function is called; the
  function itself accepts any body.
\<close>

definition create_appointment ::
  "date \<Rightarrow> string \<Rightarrow> appointment_create \<Rightarrow> db_state \<Rightarrow> exn + (appointment_out \<times> db_state)" where
  "create_appointment today now payload db =
     (case is_date_allowed today (appt_date payload) of
        Inl e \<Rightarrow> Inl e
      | Inr allowed \<Rightarrow>
          if \<not> allowed then Inl OutOfRange_date
          else
            (case get_service (service_id payload) db of
               Inl e \<Rightarrow> Inl e
             | Inr svc \<Rightarrow>
                 if appt_time payload \<notin> set ALL_SLOTS then Inl InvalidSlot
                 else if count_booked_for_day (service_id payload) (appt_date payload) db
                           \<ge> DAILY_CAPACITY
                 then Inl DayFull
                 else if count_booked_for_slot (service_id payload) (appt_date payload)
                           (appt_time payload) db > 0
                 then Inl SlotTaken
                 else
                   (let new_id = lastrowid (appointments db);
                        out = \<lparr>patient_name = strip (patient_name payload),
                               phone = strip (phone payload),
                               situation_type = situation_type payload,
                               service_id = service_id payload,
                               appt_date = appt_date payload,
                               appt_time = appt_time payload,
                               appt_id = new_id,
                               status = ''booked'',
                               created_at = now,
                               service_name = svc_name svc\<rparr>
                    in Inr (out,
                         db\<lparr>appointments :=
                              appointments db @ [inserted_row payload new_id now]\<rparr>))))"

text \<open>
  The two halves of \<^verbatim>\<open>create_appointment\<close>: everything up to the conflict query, which
  only reads the tables (lines 290 to 315), and the insert with its commit and the
  response (lines 317 to 345). No transaction spans the two.
\<close>

definition create_check :: "date \<Rightarrow> appointment_create \<Rightarrow> db_state \<Rightarrow> exn + service" where
  "create_check today payload db =
     (case is_date_allowed today (appt_date payload) of
        Inl e \<Rightarrow> Inl e
      | Inr allowed \<Rightarrow>
          if \<not> allowed then Inl OutOfRange_date
          else
            (case get_service (service_id payload) db of
               Inl e \<Rightarrow> Inl e
             | Inr svc \<Rightarrow>
                 if appt_time payload \<notin> set ALL_SLOTS then Inl InvalidSlot
                 else if count_booked_for_day (service_id payload) (appt_date payload) db
                           \<ge> DAILY_CAPACITY
                 then Inl DayFull
                 else if count_booked_for_slot (service_id payload) (appt_date payload)
                           (appt_time payload) db > 0
                 then Inl SlotTaken
                 else Inr svc))"

definition create_insert ::
  "string \<Rightarrow> appointment_create \<Rightarrow> service \<Rightarrow> db_state \<Rightarrow> appointment_out \<times> db_state" where
  "create_insert now payload svc db =
     (let new_id = lastrowid (appointments db);
          out = \<lparr>patient_name = strip (patient_name payload),
                 phone = strip (phone payload),
                 situation_type = situation_type payload,
                 service_id = service_id payload,
                 appt_date = appt_date payload,
                 appt_time = appt_time payload,
                 appt_id = new_id,
                 status = ''booked'',
                 created_at = now,
                 service_name = svc_name svc\<rparr>
      in (out, db\<lparr>appointments := appointments db @ [inserted_row payload new_id now]\<rparr>))"

text \<open>The row of the join \<^verbatim>\<open>appointments a JOIN services s ON s.id = a.service_id\<close>.\<close>

definition joined :: "appointment \<Rightarrow> service \<Rightarrow> appointment_out" where
  "joined a s =
     \<lparr>patient_name = patient_name a, phone = phone a, situation_type = situation_type a,
      service_id = service_id a, appt_date = appt_date a, appt_time = appt_time a,
      appt_id = appt_id a, status = status a, created_at = created_at a,
      service_name = svc_name s\<rparr>"

text \<open>
  \<^verbatim>\<open>list_appointments\<close>: the join, the filter on the phone, and
  \<^verbatim>\<open>ORDER BY a.appt_date DESC, a.appt_time DESC\<close> on the text columns. Rows with the same
  date and time stay in the order of the table: the stable ascending sort runs on the
  reversed rows and its result is reversed.
\<close>

definition list_appointments :: "string \<Rightarrow> db_state \<Rightarrow> appointment_out list" where
  "list_appointments phone0 db =
     (let phone1 = strip phone0;
          rows = concat (map (\<lambda>a. map (joined a)
                                      (filter (\<lambda>s. svc_id s = service_id a) (services db)))
                             (filter (\<lambda>a. phone a = phone1) (appointments db)))
      in rev (sort_key (\<lambda>r. (appt_date r, appt_time r)) (rev rows)))"

text \<open>\<^verbatim>\<open>UPDATE appointments SET status='cancelled' WHERE id=?\<close>.\<close>

definition update_cancelled :: "int \<Rightarrow> appointment list \<Rightarrow> appointment list" where
  "update_cancelled i rows =
     map (\<lambda>a. if appt_id a = i then a\<lparr>status := ''cancelled''\<rparr> else a) rows"

text \<open>
  \<^verbatim>\<open>cancel_appointment\<close>; the result is the field \<^verbatim>\<open>ok\<close> of \<^verbatim>\<open>CancelResult\<close>. The
  identifier is bound by the \<^verbatim>\<open>SELECT\<close> first, which raises when it does not fit.
\<close>

definition cancel_appointment :: "int \<Rightarrow> db_state \<Rightarrow> exn + (bool \<times> db_state)" where
  "cancel_appointment i db =
     (if \<not> sqlite_int i then Inl OverflowError
      else
        (case find (\<lambda>a. appt_id a = i) (appointments db) of
           None \<Rightarrow> Inl NotFound
         | Some row \<Rightarrow>
             if status row = ''cancelled'' then Inr (True, db)
             else Inr (True, db\<lparr>appointments := update_cancelled i (appointments db)\<rparr>)))"

subsection \<open>Sequences of requests\<close>

text \<open>
  The requests that write: a request that raises leaves the state unchanged, one that
  returns leaves the state it committed.
\<close>

datatype request = Create date string appointment_create | Cancel int

definition apply_request :: "request \<Rightarrow> db_state \<Rightarrow> db_state" where
  "apply_request r db =
     (case r of
        Create today now payload \<Rightarrow>
          (case create_appointment today now payload db of Inl e \<Rightarrow> db | Inr (out, db') \<Rightarrow> db')
      | Cancel i \<Rightarrow>
          (case cancel_appointment i db of Inl e \<Rightarrow> db | Inr (ok, db') \<Rightarrow> db'))"

definition run :: "request list \<Rightarrow> db_state \<Rightarrow> db_state" where
  "run rs db = fold apply_request rs db"

text \<open>Bookings made one after the other, all of which succeed.\<close>

fun book_all :: "(date \<times> string \<times> appointment_create) list \<Rightarrow> db_state \<Rightarrow> exn + db_state" where
  "book_all [] db = Inr db"
| "book_all ((today, now, payload) # cs) db =
     (case create_appointment today now payload db of
        Inl e \<Rightarrow> Inl e
      | Inr (out, db') \<Rightarrow> book_all cs db')"

text \<open>A day booked out: one booking of service 1 for each slot of 2026-11-03.\<close>

definition demo_payload :: "string \<Rightarrow> appointment_create" where
  "demo_payload t =
     \<lparr>patient_name = ''Ann Lee'', phone = ''0123456'', situation_type = ''routine'',
      service_id = 1, appt_date = ''2026-11-03'', appt_time = t\<rparr>"


text \<open>The state after the first booking of that day.\<close>

definition one_booking_db :: db_state where
  "one_booking_db =
     run [Create (Date 2026 11 3) ''2026-11-03T08:00:00'' (demo_payload ''09:00'')] init_db"

text \<open>A request body whose name and phone carry surrounding blanks.\<close>

definition padded_payload :: appointment_create where
  "padded_payload =
     \<lparr>patient_name = ''  Ann Lee '', phone = '' 0123456  '', situation_type = ''routine'',
      service_id = 1, appt_date = ''2026-11-20'', appt_time = ''10:30''\<rparr>"

text \<open>
  The request of \<open>demo_payload\<close> with its day written without the leading zero, as
  \<^verbatim>\<open>strptime\<close> also accepts it.
\<close>

definition unpadded_payload :: "string \<Rightarrow> appointment_create" where
  "unpadded_payload t =
     \<lparr>patient_name = ''Ann Lee'', phone = ''0123456'', situation_type = ''routine'',
      service_id = 1, appt_date = ''2026-11-3'', appt_time = t\<rparr>"

text \<open>Six slots of 3 November 2026 booked, the date written \<^verbatim>\<open>2026-11-3\<close> each time.\<close>

definition six_unpadded_db :: db_state where
  "six_unpadded_db =
     run (map (\<lambda>t. Create (Date 2026 11 3) ''2026-11-03T08:00:00'' (unpadded_payload t))
            [''09:00'', ''09:30'', ''10:00'', ''10:30'', ''11:00'', ''11:30''])
       init_db"


text \<open>A booking for 20 November followed by one for 3 November written \<^verbatim>\<open>2026-11-3\<close>.\<close>

definition two_days_db :: db_state where
  "two_days_db =
     run [Create (Date 2026 11 3) ''2026-11-03T08:00:00'' padded_payload,
          Create (Date 2026 11 3) ''2026-11-03T08:01:00'' (unpadded_payload ''09:00'')] init_db"

subsection \<open>Two calls at once\<close>

text \<open>
  The framework runs every call of \<^verbatim>\<open>create_appointment\<close> in a thread of its pool, and
  every call opens connections of its own. A call is before its checks, or between the
  conflict query and the insert, holding the service row it has read, or it has returned.
  A step takes a call to its next point on the tables as they are at that moment. The
  reads of the checks are taken as one step: the program can also be interrupted between
  them, so every schedule here is a schedule of the program.
\<close>

datatype call_state = Pending | Checked service | Returned "exn + appointment_out"

definition call_step ::
  "date \<times> string \<times> appointment_create \<Rightarrow> call_state \<Rightarrow> db_state \<Rightarrow> call_state \<times> db_state" where
  "call_step call cs db =
     (case call of
        (today, now, payload) \<Rightarrow>
          (case cs of
             Pending \<Rightarrow>
               (case create_check today payload db of
                  Inl e \<Rightarrow> (Returned (Inl e), db)
                | Inr svc \<Rightarrow> (Checked svc, db))
           | Checked svc \<Rightarrow>
               (case create_insert now payload svc db of
                  (out, db') \<Rightarrow> (Returned (Inr out), db'))
           | Returned r \<Rightarrow> (Returned r, db)))"

text \<open>Two calls \<open>A\<close> and \<open>B\<close> on one database, and a schedule that says whose step is next.\<close>

datatype caller = Caller_A | Caller_B

record two_calls =
  call_A :: call_state
  call_B :: call_state
  tables :: db_state

definition schedule_step ::
  "date \<times> string \<times> appointment_create \<Rightarrow> date \<times> string \<times> appointment_create \<Rightarrow>
   caller \<Rightarrow> two_calls \<Rightarrow> two_calls" where
  "schedule_step a b who st =
     (case who of
        Caller_A \<Rightarrow>
          (case call_step a (call_A st) (tables st) of
             (cs, db) \<Rightarrow> st\<lparr>call_A := cs, tables := db\<rparr>)
      | Caller_B \<Rightarrow>
          (case call_step b (call_B st) (tables st) of
             (cs, db) \<Rightarrow> st\<lparr>call_B := cs, tables := db\<rparr>))"

definition interleave ::
  "date \<times> string \<times> appointment_create \<Rightarrow> date \<times> string \<times> appointment_create \<Rightarrow>
   caller list \<Rightarrow> db_state \<Rightarrow> two_calls" where
  "interleave a b schedule db =
     fold (schedule_step a b) schedule \<lparr>call_A = Pending, call_B = Pending, tables = db\<rparr>"

text \<open>Whether a call has returned a response rather than raised.\<close>

definition succeeded :: "call_state \<Rightarrow> bool" where
  "succeeded cs = (case cs of Returned (Inr out) \<Rightarrow> True | _ \<Rightarrow> False)"

subsection \<open>Availability aggregator\<close>

text \<open>\<^verbatim>\<open>d += timedelta(days=1)\<close>, which raises \<^verbatim>\<open>OverflowError\<close> after 9999-12-31.\<close>

definition date_add_day :: "date \<Rightarrow> exn + date" where
  "date_add_day d =
     (if day d < days_in_month (year d) (month d) then Inr (Date (year d) (month d) (day d + 1))
      else if month d < 12 then Inr (Date (year d) (month d + 1) 1)
      else if year d < 9999 then Inr (Date (year d + 1) 1 1)
      else Inl OverflowError)"

text \<open>
  The dictionary \<open>counts\<close>: one key for each \<^verbatim>\<open>appt_date\<close> of the rows that
  \<^verbatim>\<open>GROUP BY appt_date\<close> groups, with the number of rows of the group.
\<close>

definition calendar_counts :: "int \<Rightarrow> string \<Rightarrow> string \<Rightarrow> db_state \<Rightarrow> (string \<rightharpoonup> nat)" where
  "calendar_counts sid lo hi db =
     fold (\<lambda>a m. m(appt_date a \<mapsto> (case m (appt_date a) of None \<Rightarrow> 1 | Some c \<Rightarrow> c + 1)))
       (filter (\<lambda>a. status a = ''booked'' \<and> service_id a = sid \<and>
                    lo \<le> appt_date a \<and> appt_date a < hi) (appointments db))
       Map.empty"

definition level :: "nat \<Rightarrow> string" where
  "level c = (if c \<le> 5 then ''Low'' else if c \<le> 12 then ''Medium'' else ''High'')"

record day_load =
  day_date :: string
  day_count :: nat
  day_level :: string
  day_is_full :: bool
  day_disabled :: bool

record calendar =
  cal_month :: string
  cal_service_id :: "int option"
  cal_daily_capacity :: nat
  cal_days :: "day_load list"

text \<open>The body of the \<^verbatim>\<open>while d < next_month\<close> loop of \<^verbatim>\<open>calendar_load\<close>.\<close>

definition day_entry :: "date \<Rightarrow> date \<Rightarrow> (string \<rightharpoonup> nat) \<Rightarrow> int option \<Rightarrow> day_load" where
  "day_entry d today counts sid =
     (let ds = strftime_Ymd d;
          c = (case counts ds of None \<Rightarrow> 0 | Some n \<Rightarrow> n);
          is_full = (sid \<noteq> None \<and> c \<ge> DAILY_CAPACITY);
          is_past = date_lt d today;
          disabled = (is_past \<or> is_full)
      in \<lparr>day_date = ds, day_count = c, day_level = level c,
          day_is_full = is_full, day_disabled = disabled\<rparr>)"

function days_loop ::
  "date \<Rightarrow> date \<Rightarrow> date \<Rightarrow> (string \<rightharpoonup> nat) \<Rightarrow> int option \<Rightarrow> day_load list \<Rightarrow> exn + day_load list" where
  "days_loop d next_month today counts sid days =
     (if date_lt d next_month
      then (case date_add_day d of
              Inl e \<Rightarrow> Inl e
            | Inr d' \<Rightarrow>
                days_loop d' next_month today counts sid (days @ [day_entry d today counts sid]))
      else Inr days)"
  by pat_completeness auto
termination
proof (relation "measures [\<lambda>(d, n, t, c, s, ds). nat (year n - year d + 1),
                            \<lambda>(d, n, t, c, s, ds). nat (12 - month d),
                            \<lambda>(d, n, t, c, s, ds). nat (31 - day d)]", goal_cases)
  case 1
  show ?case by simp
next
  case (2 d next_month today counts sid days d')
  from 2(1) have y: "year d \<le> year next_month"
    by (auto simp: date_lt_def date_key_def)
  have m: "days_in_month (year d) (month d) \<le> 31"
    by (simp add: days_in_month_def)
  from 2(2) y m show ?case
    by (auto simp: date_add_day_def split: if_splits)
qed

definition calendar_load :: "date \<Rightarrow> string \<Rightarrow> int option \<Rightarrow> db_state \<Rightarrow> exn + calendar" where
  "calendar_load today month0 sid db =
     (case is_month_allowed today month0 of
        Inl e \<Rightarrow> Inl e
      | Inr allowed \<Rightarrow>
          if \<not> allowed then Inl OutOfRange_month
          else
            (case strptime_Ym month0 of
               Inl e \<Rightarrow> Inl e
             | Inr r \<Rightarrow>
                 (let first_day = first_day_of_month r in
                  case (if month first_day = 12 then mk_date (year first_day + 1) 1 1
                        else mk_date (year first_day) (month first_day + 1) 1) of
                    Inl e \<Rightarrow> Inl e
                  | Inr next_month \<Rightarrow>
                      (case (case sid of
                               None \<Rightarrow> Inr Map.empty
                             | Some s \<Rightarrow>
                                 (case get_service s db of
                                    Inl e \<Rightarrow> Inl e
                                  | Inr svc \<Rightarrow>
                                      Inr (calendar_counts s (strftime_Ymd first_day)
                                             (strftime_Ymd next_month) db))) of
                         Inl e \<Rightarrow> Inl e
                       | Inr counts \<Rightarrow>
                           (case days_loop first_day next_month today counts sid [] of
                              Inl e \<Rightarrow> Inl e
                            | Inr days \<Rightarrow>
                                Inr \<lparr>cal_month = month0, cal_service_id = sid,
                                     cal_daily_capacity = DAILY_CAPACITY,
                                     cal_days = days\<rparr>)))))"

subsection \<open>The specification's terms: days and months\<close>

text \<open>
  The properties of the booking rules speak of the day of an appointment, where the column
  \<^verbatim>\<open>appt_date\<close> holds the text of the request as it came. The day of a row is the date
  that \<open>strptime_Ymd\<close> reads from that text. The two counts below are those of
  \<open>count_booked_for_day\<close> and of the conflict query, taken over days instead of texts.
\<close>

definition count_booked_on_day :: "int \<Rightarrow> date \<Rightarrow> db_state \<Rightarrow> nat" where
  "count_booked_on_day sid d db =
     length (filter (\<lambda>a. status a = ''booked'' \<and> service_id a = sid \<and>
                          strptime_Ymd (appt_date a) = Inr d) (appointments db))"

definition count_booked_on_slot :: "int \<Rightarrow> date \<Rightarrow> string \<Rightarrow> db_state \<Rightarrow> nat" where
  "count_booked_on_slot sid d t db =
     length (filter (\<lambda>a. status a = ''booked'' \<and> service_id a = sid \<and>
                          strptime_Ymd (appt_date a) = Inr d \<and> appt_time a = t) (appointments db))"

text \<open>
  A date text is canonical when it is the zero-padded text \<^verbatim>\<open>YYYY-MM-DD\<close> of its day; a
  request is canonical when its date is, and a state when the date of every row is.
\<close>

definition canonical_date :: "string \<Rightarrow> bool" where
  "canonical_date ds = (case strptime_Ymd ds of Inl e \<Rightarrow> False | Inr d \<Rightarrow> strftime_Ymd d = ds)"


definition canonical_rows :: "db_state \<Rightarrow> bool" where
  "canonical_rows db = list_all (\<lambda>a. canonical_date (appt_date a)) (appointments db)"


text \<open>
  What the specification says \<open>calendar_load\<close> reports for a day \<open>d\<close>: the number of
  booked appointments of the service on that day (zero when no service is given), the level
  Low up to 5, Medium from 6 to 12, High above 12, full when a service is given and the
  count reaches the daily capacity, disabled when the day is before today or full.
\<close>

definition day_load_spec :: "date \<Rightarrow> int option \<Rightarrow> db_state \<Rightarrow> date \<Rightarrow> day_load" where
  "day_load_spec today sid db d =
     (let c = (case sid of None \<Rightarrow> 0 | Some s \<Rightarrow> count_booked_on_day s d db);
          full = (sid \<noteq> None \<and> DAILY_CAPACITY \<le> c)
      in \<lparr>day_date = strftime_Ymd d,
          day_count = c,
          day_level = (if c \<le> 5 then ''Low'' else if 6 \<le> c \<and> c \<le> 12 then ''Medium'' else ''High''),
          day_is_full = full,
          day_disabled = (date_lt d today \<or> full)\<rparr>)"

text \<open>The days of a month, in order.\<close>

definition month_days :: "int \<Rightarrow> int \<Rightarrow> date list" where
  "month_days y m = map (Date y m) [1..days_in_month y m]"

section \<open>Properties\<close>

subsection \<open>Digits\<close>

lemma digit_char_simps:
  "digit_char 0 = CHR ''0''" "digit_char 1 = CHR ''1''" "digit_char 2 = CHR ''2''"
  "digit_char 3 = CHR ''3''" "digit_char 4 = CHR ''4''" "digit_char 5 = CHR ''5''"
  "digit_char 6 = CHR ''6''" "digit_char 7 = CHR ''7''" "digit_char 8 = CHR ''8''"
  "digit_char 9 = CHR ''9''" "digit_char (Suc 0) = CHR ''1''"
  by code_simp+

lemma of_char_digit_char: "n < 10 \<Longrightarrow> of_char (digit_char n) = 48 + n"
  by (simp add: digit_char_def)

subsection \<open>The slot catalog\<close>

lemma generate_slots_value:
  "generate_slots =
     [''09:00'', ''09:30'', ''10:00'', ''10:30'', ''11:00'', ''11:30'', ''12:00'', ''12:30'',
      ''13:00'', ''13:30'', ''14:00'', ''14:30'', ''15:00'', ''15:30'', ''16:00'', ''16:30'']"
  by code_simp

lemma upt_16: "[0..<16] = [0, 1, 2, 3, 4, 5, 6, 7, 8, 9, 10, 11, 12, 13, 14, 15::nat]"
  by (simp add: upt_rec)

lemma generate_slots_map:
  "map (\<lambda>k. strftime_HM (WORK_START_HOUR * 60 + SLOT_MINUTES * k)) [0..<16] = generate_slots"
  unfolding generate_slots_value upt_16
  by (simp add: strftime_HM_def pad2_def digit_char_simps WORK_START_HOUR_def SLOT_MINUTES_def)

lemma DAILY_CAPACITY_16: "DAILY_CAPACITY = 16"
  by (simp add: DAILY_CAPACITY_def ALL_SLOTS_def generate_slots_value)

text \<open>
  Claim C6. With start hour 9, end hour 17 and 30-minute slots, \<open>generate_slots\<close> returns
  exactly 16 labels, the first \<open>09:00\<close>, the last \<open>16:30\<close>, strictly increasing; the label of
  slot \<open>k\<close> is the time \<open>09:00 + 30 k\<close> minutes for \<open>k < 16\<close>, slot 16 would be the end
  boundary 17:00, which is not in the catalog; and \<open>DAILY_CAPACITY\<close> is the length of the
  catalog.
\<close>

theorem generate_slots_catalog:
  "length generate_slots = 16 \<and>
   hd generate_slots = ''09:00'' \<and>
   last generate_slots = ''16:30'' \<and>
   sorted_wrt (<) generate_slots \<and>
   ''17:00'' \<notin> set generate_slots \<and>
   generate_slots = map (\<lambda>k. strftime_HM (WORK_START_HOUR * 60 + SLOT_MINUTES * k)) [0..<16] \<and>
   WORK_START_HOUR * 60 + SLOT_MINUTES * 16 = WORK_END_HOUR * 60 \<and>
   ALL_SLOTS = generate_slots \<and>
   DAILY_CAPACITY = length generate_slots"
  unfolding generate_slots_map DAILY_CAPACITY_def ALL_SLOTS_def
  by (simp add: generate_slots_value WORK_START_HOUR_def WORK_END_HOUR_def SLOT_MINUTES_def)

subsection \<open>Window policy\<close>

lemma not_date_lt: "\<not> date_lt a b \<longleftrightarrow> date_le b a"
  by (auto simp: date_lt_def date_le_def)

lemma date_lt_iff:
  "date_lt a b \<longleftrightarrow>
     year a < year b \<or> year a = year b \<and> (month a < month b \<or> month a = month b \<and> day a < day b)"
  by (auto simp: date_lt_def date_key_def)

lemma date_le_iff:
  "date_le a b \<longleftrightarrow>
     year a < year b \<or> year a = year b \<and> (month a < month b \<or> month a = month b \<and> day a \<le> day b)"
  by (auto simp: date_le_def date_key_def)

lemma first_day_le: "valid_date d \<Longrightarrow> date_le (first_day_of_month d) d"
  by (simp add: date_le_iff first_day_of_month_def valid_date_def)

lemma date_le_trans: "date_le a b \<Longrightarrow> date_le b c \<Longrightarrow> date_le a c"
  unfolding date_le_def by (rule order_trans)

lemma valid_first: "valid_date (Date y m 1) \<longleftrightarrow> 1 \<le> y \<and> y \<le> 9999 \<and> 1 \<le> m \<and> m \<le> 12"
  by (auto simp: valid_date_def days_in_month_def)

lemma mod12_range: "1 \<le> (x::int) mod 12 + 1 \<and> x mod 12 + 1 \<le> 12"
proof -
  have "0 \<le> x mod 12" "x mod 12 < 12" by simp_all
  then show ?thesis by linarith
qed

lemma add_months_Inr:
  "add_months d k = Inr r \<longleftrightarrow>
     r = Date (year d + (month d - 1 + k) div 12) ((month d - 1 + k) mod 12 + 1) 1 \<and>
     1 \<le> year d + (month d - 1 + k) div 12 \<and> year d + (month d - 1 + k) div 12 \<le> 9999"
  using mod12_range [of "month d - 1 + k"]
  by (auto simp: add_months_def mk_date_def valid_first Let_def)

lemma div12_step: "(x::int) div 12 + (x mod 12 + 1) div 12 = (x + 1) div 12"
proof -
  have "(x + 1) div 12 = (12 * (x div 12) + (x mod 12 + 1)) div 12"
    by (simp add: algebra_simps)
  also have "\<dots> = x div 12 + (x mod 12 + 1) div 12"
    by (rule div_mult_self2 [of 12 "x mod 12 + 1" "x div 12",
             simplified add.commute [of "x mod 12 + 1"]]) simp
  finally show ?thesis by simp
qed

lemma mod12_step: "((x::int) mod 12 + 1) mod 12 = (x + 1) mod 12"
  by (simp add: mod_simps)

lemma add_months_add_months:
  assumes "add_months d 3 = Inr mm"
  shows "add_months mm 1 = add_months d 4"
proof -
  define x where "x = month d - 1 + 3"
  have x4: "month d - 1 + 4 = x + 1" by (simp add: x_def)
  have mm: "mm = Date (year d + x div 12) (x mod 12 + 1) 1"
    using assms unfolding add_months_Inr x_def by blast
  have s: "x mod 12 + 1 - 1 + 1 = x mod 12 + 1" by simp
  have y: "year d + x div 12 + (x mod 12 + 1) div 12 = year d + (x + 1) div 12"
    using div12_step [of x] by linarith
  show ?thesis
    unfolding add_months_def Let_def mm date.sel s x4 y mod12_step ..
qed

lemma add_months_3_defined:
  assumes "valid_date d" "add_months (first_day_of_month d) 4 = Inr ub"
  shows "\<exists>mm. add_months (first_day_of_month d) 3 = Inr mm"
proof -
  have b: "1 \<le> month d" "1 \<le> year d" using assms(1) by (auto simp: valid_date_def)
  have u: "year d + (month d - 1 + 4) div 12 \<le> 9999"
    using assms(2) unfolding add_months_Inr first_day_of_month_def date.sel by blast
  have "(month d - 1 + 3) div 12 \<le> (month d - 1 + 4) div 12"
    by (rule zdiv_mono1) simp_all
  moreover have "0 \<le> (month d - 1 + 3) div 12"
    using b(1) by (simp add: pos_imp_zdiv_nonneg_iff)
  ultimately have "1 \<le> year d + (month d - 1 + 3) div 12 \<and>
                   year d + (month d - 1 + 3) div 12 \<le> 9999"
    using b(2) u by linarith
  then show ?thesis
    unfolding add_months_Inr first_day_of_month_def date.sel by blast
qed

lemma add_months_later:
  assumes "1 \<le> month d" "0 < k" "add_months d k = Inr r"
  shows "date_lt d r"
proof -
  define x where "x = month d - 1 + k"
  have x: "0 < x" using assms(1,2) by (simp add: x_def)
  have r: "r = Date (year d + x div 12) (x mod 12 + 1) 1"
    using assms(3) unfolding add_months_Inr x_def by blast
  have nn: "0 \<le> x div 12" using x by (simp add: pos_imp_zdiv_nonneg_iff)
  show ?thesis
  proof (cases "x div 12 = 0")
    case True
    have "x = 12 * (x div 12) + x mod 12" by simp
    with True have "x mod 12 = x" by simp
    then have "month d < x mod 12 + 1" using assms(2) by (simp add: x_def)
    then show ?thesis unfolding date_lt_iff r date.sel using True by simp
  next
    case False
    with nn have "0 < x div 12" by simp
    then show ?thesis unfolding date_lt_iff r date.sel by simp
  qed
qed

lemma date_lt_imp_le: "date_lt a b \<Longrightarrow> date_le a b"
  by (simp add: date_lt_def date_le_def)

lemma add_months_month: "add_months d k = Inr r \<Longrightarrow> 1 \<le> month r \<and> day r = 1"
  using mod12_range [of "month d - 1 + k"] unfolding add_months_Inr by auto

subsection \<open>Parsing what \<open>strftime\<close> prints\<close>

lemma days_in_month_bounds: "28 \<le> days_in_month y m" "days_in_month y m \<le> 31"
  by (simp_all add: days_in_month_def)

lemma digit_char_eq: "a < 10 \<Longrightarrow> b < 10 \<Longrightarrow> digit_char a = digit_char b \<longleftrightarrow> a = b"
proof
  assume "a < 10" "b < 10" "digit_char a = digit_char b"
  then have "(of_char (digit_char a) :: nat) = of_char (digit_char b)" by simp
  then show "a = b" using \<open>a < 10\<close> \<open>b < 10\<close> by (simp add: of_char_digit_char)
qed simp

lemma digit_char_less: "a < 10 \<Longrightarrow> b < 10 \<Longrightarrow> digit_char a < digit_char b \<longleftrightarrow> a < b"
  by (simp add: less_char_def of_char_digit_char)

lemma is_digit_digit_char: "n < 10 \<Longrightarrow> is_digit (digit_char n)"
  by (simp add: is_digit_def of_char_digit_char)

lemma digit_val_digit_char: "n < 10 \<Longrightarrow> digit_val (digit_char n) = n"
  by (simp add: digit_val_def of_char_digit_char)

lemma in_range_digit_char:
  "l < 10 \<Longrightarrow> h < 10 \<Longrightarrow> n < 10 \<Longrightarrow>
     in_range (digit_char l) (digit_char h) (digit_char n) \<longleftrightarrow> l \<le> n \<and> n \<le> h"
  by (simp add: in_range_def less_eq_char_def of_char_digit_char)

lemma digit_char_not_sep: "n < 10 \<Longrightarrow> digit_char n \<noteq> CHR ''-'' \<and> digit_char n \<noteq> CHR '' ''"
proof -
  assume n: "n < 10"
  have "(of_char (digit_char n) :: nat) \<noteq> of_char CHR ''-''"
       "(of_char (digit_char n) :: nat) \<noteq> of_char CHR '' ''"
    using n by (simp_all add: of_char_digit_char)
  then show ?thesis by auto
qed

lemma digits4:
  "1000 * (y div 1000) + 100 * (y div 100 mod 10) + 10 * (y div 10 mod 10) + y mod 10 = (y::nat)"
proof -
  have 1: "y = 10 * (y div 10) + y mod 10" by simp
  have 2: "y div 10 = 10 * (y div 10 div 10) + y div 10 mod 10" by simp
  have 3: "y div 100 = 10 * (y div 100 div 10) + y div 100 mod 10" by simp
  have 4: "y div 10 div 10 = y div 100" "y div 100 div 10 = y div 1000" by (simp_all add: div_mult2_eq)
  show ?thesis using 1 2 3 unfolding 4 by linarith
qed

lemma re_Y_pad4: "y < 10000 \<Longrightarrow> re_Y (pad4 y @ rest) = [(y, rest)]"
  by (simp add: pad4_def is_digit_digit_char digit_val_digit_char digits4)

lemma pad2_digits: "n < 100 \<Longrightarrow> pad2 n = [digit_char (n div 10), digit_char (n mod 10)]"
  by (simp add: pad2_def)

lemma chr_digits:
  "CHR ''0'' = digit_char 0" "CHR ''1'' = digit_char 1" "CHR ''2'' = digit_char 2"
  "CHR ''3'' = digit_char 3" "CHR ''9'' = digit_char 9"
  by (simp_all add: digit_char_simps)

lemma pad2_tens: "a < 10 \<Longrightarrow> b < 10 \<Longrightarrow> pad2 (10 * a + b) = [digit_char a, digit_char b]"
  by (simp add: pad2_def)

lemma two_digits: "n < 100 \<Longrightarrow> \<exists>a b. n = 10 * a + b \<and> a < 10 \<and> b < (10::nat)"
proof -
  assume "n < 100"
  then have "n = 10 * (n div 10) + n mod 10 \<and> n div 10 < 10 \<and> n mod 10 < 10" by simp
  then show ?thesis by blast
qed

lemma re_m_pad2:
  assumes "1 \<le> m" "m \<le> 12"
  shows "\<exists>ms. re_m (pad2 m @ rest) = (m, rest) # ms \<and>
              (\<forall>(v, r) \<in> set ms. \<exists>c r'. r = digit_char c # r' \<and> c < 10)"
proof -
  from assms two_digits [of m] obtain a b where m: "m = 10 * a + b" and d: "a < 10" "b < 10"
    by auto
  from assms have c: "a = 0 \<and> 1 \<le> b \<or> a = 1 \<and> b \<le> 2" unfolding m by linarith
  show ?thesis
    unfolding m pad2_tens [OF d]
    using c d
    by (auto simp: re_m_def re_two_def re_one_def chr_digits
                   in_range_digit_char digit_char_eq digit_val_digit_char)
qed

lemma re_d_pad2:
  assumes "1 \<le> k" "k \<le> 31"
  shows "\<exists>ks. re_d (pad2 k) = (k, []) # ks"
proof -
  from assms two_digits [of k] obtain a b where k: "k = 10 * a + b" and d: "a < 10" "b < 10"
    by auto
  from assms have c: "a = 0 \<and> 1 \<le> b \<or> a = 1 \<or> a = 2 \<or> a = 3 \<and> b \<le> 1"
    unfolding k by linarith
  show ?thesis
    unfolding k pad2_tens [OF d]
    using c d
    by (auto simp: re_d_def re_two_def re_one_def re_space_one_def chr_digits
                   in_range_digit_char digit_char_eq digit_val_digit_char is_digit_digit_char)
qed

lemma matches_Ym_pad:
  assumes "y < 10000" "1 \<le> m" "m \<le> 12"
  shows "\<exists>ms. matches_Ym (pad4 y @ ''-'' @ pad2 m @ rest) = ((y, m), rest) # ms"
proof -
  from re_m_pad2 [OF assms(2,3), of rest] obtain ms where
    "re_m (pad2 m @ rest) = (m, rest) # ms" by blast
  then show ?thesis
    unfolding matches_Ym_def re_Y_pad4 [OF assms(1)] by (simp add: re_lit_def)
qed

lemma matches_Ymd_pad:
  assumes "y < 10000" "1 \<le> m" "m \<le> 12" "1 \<le> k" "k \<le> 31"
  shows "\<exists>xs. matches_Ymd (pad4 y @ ''-'' @ pad2 m @ ''-'' @ pad2 k) = ((y, m, k), []) # xs"
proof -
  from matches_Ym_pad [OF assms(1-3), of "''-'' @ pad2 k"] obtain ms where
    m: "matches_Ym (pad4 y @ ''-'' @ pad2 m @ ''-'' @ pad2 k) = ((y, m), ''-'' @ pad2 k) # ms"
    by blast
  from re_d_pad2 [OF assms(4,5)] obtain ks where d: "re_d (pad2 k) = (k, []) # ks" by blast
  show ?thesis
    unfolding matches_Ymd_def m by (simp add: re_lit_def d)
qed

lemma strptime_Ymd_strftime_Ymd:
  assumes "valid_date d"
  shows "strptime_Ymd (strftime_Ymd d) = Inr d"
proof -
  have b: "nat (year d) < 10000" "1 \<le> nat (month d)" "nat (month d) \<le> 12"
          "1 \<le> nat (day d)" "nat (day d) \<le> 31"
    using assms days_in_month_bounds(2) [of "year d" "month d"]
    unfolding valid_date_def by linarith+
  have i: "int (nat (year d)) = year d" "int (nat (month d)) = month d" "int (nat (day d)) = day d"
    using assms by (simp_all add: valid_date_def)
  from matches_Ymd_pad [OF b] obtain xs where
    "matches_Ymd (strftime_Ymd d) = ((nat (year d), nat (month d), nat (day d)), []) # xs"
    unfolding strftime_Ymd_def by blast
  then have "strptime_Ymd (strftime_Ymd d) =
               mk_date (int (nat (year d))) (int (nat (month d))) (int (nat (day d)))"
    by (simp add: strptime_Ymd_def del: int_nat_eq)
  then show ?thesis
    unfolding i using assms by (simp add: mk_date_def)
qed


text \<open>
  \<open>strptime\<close> also accepts a month or a day written without its leading zero, and rejects
  what is not a date.
\<close>

lemma strptime_examples:
  "strptime_Ymd ''2026-11-3'' = Inr (Date 2026 11 3)"
  "strptime_Ym ''2027-2'' = Inr (Date 2027 2 1)"
  "strptime_Ymd ''2026-02-30'' = Inl ValueError"
  "strptime_Ymd ''2026-11-031'' = Inl ValueError"
  "strptime_Ym ''2027-13'' = Inl ValueError"
  by code_simp+

lemma strptime_Ym_valid: "strptime_Ym s = Inr r \<Longrightarrow> valid_date r \<and> day r = 1"
  by (auto simp: strptime_Ym_def mk_date_def split: list.splits prod.splits if_splits)

lemma strftime_examples:
  "strftime_Ymd (Date 2026 11 3) = ''2026-11-03''" "strftime_Ymd (Date 2026 11 2) = ''2026-11-02''"
  by (simp_all add: strftime_Ymd_def pad4_def pad2_def digit_char_simps)

subsection \<open>Window policy: the two checks\<close>

text \<open>
  Claim C2. For a date string that \<open>strptime\<close> accepts as the date \<open>d\<close>,
  \<open>is_date_allowed\<close> returns true exactly when \<open>today \<le> d\<close> and \<open>d\<close> is before
  \<open>first_day_of_month (add_months current_month_start (N + 1))\<close> with \<open>N = 3\<close>; in particular
  today itself is allowed and any date before today is rejected. The clock is a date whose
  window end \<open>add_months current_month_start (N + 1)\<close> exists, that is, is not after year 9999.
  Every date in its zero-padded form \<open>YYYY-MM-DD\<close> is such a string.
\<close>

theorem is_date_allowed_iff:
  assumes "valid_date today"
    and "strptime_Ymd ds = Inr d"
    and "add_months (first_day_of_month today) (ALLOWED_MONTHS_AHEAD + 1) = Inr upper"
  shows "is_date_allowed today ds = Inr (date_le today d \<and> date_lt d (first_day_of_month upper)) \<and>
         (d = today \<longrightarrow> is_date_allowed today ds = Inr True) \<and>
         (date_lt d today \<longrightarrow> is_date_allowed today ds = Inr False) \<and>
         (\<forall>e. valid_date e \<longrightarrow> strptime_Ymd (strftime_Ymd e) = Inr e)"
proof -
  let ?cur = "first_day_of_month today"
  from assms(3) have up4: "add_months ?cur 4 = Inr upper"
    by (simp add: ALLOWED_MONTHS_AHEAD_def)
  then obtain mm where mm: "add_months ?cur 3 = Inr mm"
    using add_months_3_defined [OF assms(1)] by blast
  have up: "add_months mm 1 = Inr upper"
    using add_months_add_months [OF mm] up4 by simp
  have fd: "first_day_of_month upper = upper"
    using up4 unfolding add_months_Inr by (auto simp: first_day_of_month_def)
  have cur: "date_le ?cur today" by (rule first_day_le [OF assms(1)])
  have red: "date_le today d \<Longrightarrow> \<not> date_lt d ?cur"
    using cur date_le_trans not_date_lt by blast
  have main: "is_date_allowed today ds = Inr (date_le today d \<and> date_lt d upper)"
  proof (cases "date_lt d today")
    case True
    then show ?thesis
      by (simp add: is_date_allowed_def Let_def ALLOWED_MONTHS_AHEAD_def mm assms(2)
                    not_date_lt [symmetric])
  next
    case False
    then have le: "date_le today d" by (simp add: not_date_lt)
    show ?thesis
      using False red [OF le] le
      by (simp add: is_date_allowed_def Let_def ALLOWED_MONTHS_AHEAD_def mm assms(2) up
                    not_date_lt [symmetric])
  qed
  have refl: "date_le today today" by (simp add: date_le_def)
  have m1: "1 \<le> month ?cur" using assms(1) by (simp add: valid_date_def first_day_of_month_def)
  have "date_lt ?cur upper" by (rule add_months_later [OF m1 _ up4]) simp
  then have lt: "date_lt today upper"
    using add_months_month [OF up4] by (auto simp: date_lt_iff first_day_of_month_def)
  have rt: "\<forall>e. valid_date e \<longrightarrow> strptime_Ymd (strftime_Ymd e) = Inr e"
    using strptime_Ymd_strftime_Ymd by blast
  have "is_date_allowed today ds = Inr (date_le today d \<and> date_lt d (first_day_of_month upper)) \<and>
         (d = today \<longrightarrow> is_date_allowed today ds = Inr True) \<and>
         (date_lt d today \<longrightarrow> is_date_allowed today ds = Inr False)"
    using main refl lt by (auto simp: fd not_date_lt [symmetric])
  with rt show ?thesis by blast
qed









theorem is_date_allowed_iff_witness:
  "valid_date (Date 2026 11 3) \<and>
   add_months (first_day_of_month (Date 2026 11 3)) (ALLOWED_MONTHS_AHEAD + 1) = Inr (Date 2027 3 1) \<and>
   strptime_Ymd ''2027-02-28'' = Inr (Date 2027 2 28) \<and>
   is_date_allowed (Date 2026 11 3) ''2027-02-28'' = Inr True \<and>
   strptime_Ymd ''2026-11-03'' = Inr (Date 2026 11 3) \<and>
   is_date_allowed (Date 2026 11 3) ''2026-11-03'' = Inr True \<and>
   strptime_Ymd ''2026-11-02'' = Inr (Date 2026 11 2) \<and>
   date_lt (Date 2026 11 2) (Date 2026 11 3) \<and>
   is_date_allowed (Date 2026 11 3) ''2026-11-02'' = Inr False"
proof -
  have v: "valid_date (Date 2026 11 3)" by code_simp
  have a: "add_months (first_day_of_month (Date 2026 11 3)) (ALLOWED_MONTHS_AHEAD + 1) = Inr (Date 2027 3 1)"
    by code_simp
  have p1: "strptime_Ymd ''2027-02-28'' = Inr (Date 2027 2 28)" by code_simp
  have p2: "strptime_Ymd ''2026-11-03'' = Inr (Date 2026 11 3)" by code_simp
  have p3: "strptime_Ymd ''2026-11-02'' = Inr (Date 2026 11 2)" by code_simp
  have c: "date_le (Date 2026 11 3) (Date 2027 2 28)"
          "date_lt (Date 2027 2 28) (first_day_of_month (Date 2027 3 1))"
          "date_lt (Date 2026 11 2) (Date 2026 11 3)"
    by (simp_all add: date_le_iff date_lt_iff first_day_of_month_def)
  have r1: "is_date_allowed (Date 2026 11 3) ''2027-02-28'' = Inr True"
    using is_date_allowed_iff [OF v p1 a] c by simp
  have r2: "is_date_allowed (Date 2026 11 3) ''2026-11-03'' = Inr True"
    using is_date_allowed_iff [OF v p2 a] by blast
  have r3: "is_date_allowed (Date 2026 11 3) ''2026-11-02'' = Inr False"
    using is_date_allowed_iff [OF v p3 a] c(3) by blast
  show ?thesis
    using v a p1 p2 p3 c(3) r1 r2 r3 by blast
qed

subsection \<open>Booking ledger: the two invariants\<close>

lemma create_appointment_Inr_iff:
  "create_appointment today now p db = Inr (out, db') \<longleftrightarrow>
     is_date_allowed today (appt_date p) = Inr True \<and>
     (\<exists>svc. get_service (service_id p) db = Inr svc \<and>
            out = joined (inserted_row p (lastrowid (appointments db)) now) svc) \<and>
     appt_time p \<in> set ALL_SLOTS \<and>
     count_booked_for_day (service_id p) (appt_date p) db < DAILY_CAPACITY \<and>
     count_booked_for_slot (service_id p) (appt_date p) (appt_time p) db = 0 \<and>
     db' = db\<lparr>appointments := appointments db @ [inserted_row p (lastrowid (appointments db)) now]\<rparr>"
  by (auto simp: create_appointment_def Let_def joined_def inserted_row_def
           split: sum.splits if_splits)

lemma create_appointment_Inl_cases:
  "create_appointment today now p db = Inl e \<longleftrightarrow>
     is_date_allowed today (appt_date p) = Inl e \<or>
     is_date_allowed today (appt_date p) = Inr False \<and> e = OutOfRange_date \<or>
     is_date_allowed today (appt_date p) = Inr True \<and>
       (get_service (service_id p) db = Inl e \<or>
        (\<exists>svc. get_service (service_id p) db = Inr svc) \<and>
          (appt_time p \<notin> set ALL_SLOTS \<and> e = InvalidSlot \<or>
           appt_time p \<in> set ALL_SLOTS \<and>
             (DAILY_CAPACITY \<le> count_booked_for_day (service_id p) (appt_date p) db \<and> e = DayFull \<or>
              count_booked_for_day (service_id p) (appt_date p) db < DAILY_CAPACITY \<and>
              0 < count_booked_for_slot (service_id p) (appt_date p) (appt_time p) db \<and>
              e = SlotTaken)))"
  by (auto simp: create_appointment_def Let_def split: sum.splits if_splits)

lemma cancel_appointment_cases:
  "\<not> sqlite_int i \<and> cancel_appointment i db = Inl OverflowError \<or>
   sqlite_int i \<and>
   (cancel_appointment i db = Inl NotFound \<and> find (\<lambda>a. appt_id a = i) (appointments db) = None \<or>
    (\<exists>row. find (\<lambda>a. appt_id a = i) (appointments db) = Some row \<and>
       (status row = ''cancelled'' \<and> cancel_appointment i db = Inr (True, db) \<or>
        status row \<noteq> ''cancelled'' \<and>
        cancel_appointment i db =
          Inr (True, db\<lparr>appointments := update_cancelled i (appointments db)\<rparr>))))"
  by (cases "sqlite_int i") (auto simp: cancel_appointment_def split: option.splits)





lemma count_booked_for_slot_insert:
  "count_booked_for_slot sid d t (db\<lparr>appointments := appointments db @ [inserted_row p n now]\<rparr>)
     = count_booked_for_slot sid d t db +
       (if service_id p = sid \<and> appt_date p = d \<and> appt_time p = t then 1 else 0)"
  by (simp add: count_booked_for_slot_def inserted_row_def)

lemma count_booked_for_day_insert:
  "count_booked_for_day sid d (db\<lparr>appointments := appointments db @ [inserted_row p n now]\<rparr>)
     = count_booked_for_day sid d db +
       (if service_id p = sid \<and> appt_date p = d then 1 else 0)"
  by (simp add: count_booked_for_day_def inserted_row_def)

lemma apply_request_cases:
  "apply_request r db = db \<or>
   (\<exists>today now p. r = Create today now p \<and>
      is_date_allowed today (appt_date p) = Inr True \<and>
      (\<exists>svc. get_service (service_id p) db = Inr svc) \<and>
      appt_time p \<in> set ALL_SLOTS \<and>
      count_booked_for_day (service_id p) (appt_date p) db < DAILY_CAPACITY \<and>
      count_booked_for_slot (service_id p) (appt_date p) (appt_time p) db = 0 \<and>
      apply_request r db =
        db\<lparr>appointments := appointments db @ [inserted_row p (lastrowid (appointments db)) now]\<rparr>) \<or>
   (\<exists>i. r = Cancel i \<and>
      apply_request r db = db\<lparr>appointments := update_cancelled i (appointments db)\<rparr>)"
proof (cases r)
  case (Create today now p)
  show ?thesis
  proof (cases "create_appointment today now p db")
    case (Inl e)
    then show ?thesis by (simp add: apply_request_def Create)
  next
    case (Inr res)
    obtain out db' where res: "res = (out, db')" by (cases res)
    from Inr have ap: "apply_request r db = db'" by (simp add: apply_request_def Create res)
    from Inr [unfolded res create_appointment_Inr_iff] show ?thesis
      unfolding ap using Create by blast
  qed
next
  case (Cancel i)
  from cancel_appointment_cases [of i db] show ?thesis
    by (auto simp: apply_request_def Cancel)
qed

lemma run_Nil: "run [] db = db"
  by (simp add: run_def)

lemma run_Cons: "run (r # rs) db = run rs (apply_request r db)"
  by (simp add: run_def)

lemma run_snoc: "run (rs @ [r]) db = apply_request r (run rs db)"
  by (simp add: run_def)





lemma get_service_services: "services db' = services db \<Longrightarrow> get_service sid db' = get_service sid db"
  by (simp add: get_service_def)

lemma apply_request_services: "services (apply_request r db) = services db"
  using apply_request_cases [of r db] by auto

lemma run_services: "services (run rs db) = services db"
  by (induction rs arbitrary: db) (simp_all add: run_Nil run_Cons apply_request_services)

lemma book_all_run:
  "book_all cs db = Inr db' \<Longrightarrow> run (map (\<lambda>(today, now, p). Create today now p) cs) db = db'"
proof (induction cs arbitrary: db)
  case Nil
  then show ?case by (simp add: run_Nil)
next
  case (Cons c cs)
  obtain today now p where c: "c = (today, now, p)" by (cases c)
  from Cons.prems obtain out db1 where
    cr: "create_appointment today now p db = Inr (out, db1)" and rest: "book_all cs db1 = Inr db'"
    by (auto simp: c split: sum.splits)
  have "apply_request (Create today now p) db = db1" by (simp add: apply_request_def cr)
  then show ?case using Cons.IH [OF rest] by (simp add: c run_Cons)
qed

lemma book_all_count:
  assumes "book_all cs db = Inr db'"
    and "\<forall>(today, now, p) \<in> set cs. service_id p = sid \<and> appt_date p = d"
  shows "count_booked_for_day sid d db' = count_booked_for_day sid d db + length cs \<and>
         services db' = services db"
  using assms
proof (induction cs arbitrary: db)
  case Nil
  then show ?case by simp
next
  case (Cons c cs)
  obtain today now p where c: "c = (today, now, p)" by (cases c)
  from Cons.prems(1) obtain out db1 where
    cr: "create_appointment today now p db = Inr (out, db1)" and rest: "book_all cs db1 = Inr db'"
    by (auto simp: c split: sum.splits)
  from Cons.prems(2) have p: "service_id p = sid" "appt_date p = d"
    and all: "\<forall>(today, now, p) \<in> set cs. service_id p = sid \<and> appt_date p = d"
    by (auto simp: c)
  from cr [unfolded create_appointment_Inr_iff]
  have db1: "db1 = db\<lparr>appointments := appointments db @ [inserted_row p (lastrowid (appointments db)) now]\<rparr>"
    by blast
  have "count_booked_for_day sid d db1 = count_booked_for_day sid d db + 1"
    unfolding db1 count_booked_for_day_insert using p by simp
  moreover have "services db1 = services db" unfolding db1 by simp
  ultimately show ?case using Cons.IH [OF rest all] by simp
qed

lemma book_all_slots:
  assumes "is_date_allowed today (appt_date p) = Inr True"
    and "get_service (service_id p) db = Inr svc"
    and "distinct ts" and "set ts \<subseteq> set ALL_SLOTS"
    and "count_booked_for_day (service_id p) (appt_date p) db + length ts \<le> DAILY_CAPACITY"
    and "\<forall>t \<in> set ts. count_booked_for_slot (service_id p) (appt_date p) t db = 0"
  shows "\<exists>db'. book_all (map (\<lambda>t. (today, now, p\<lparr>appt_time := t\<rparr>)) ts) db = Inr db' \<and>
           (\<forall>t. count_booked_for_slot (service_id p) (appt_date p) t db' =
                  count_booked_for_slot (service_id p) (appt_date p) t db +
                  (if t \<in> set ts then 1 else 0))"
  using assms(2-)
proof (induction ts arbitrary: db)
  case Nil
  then show ?case by simp
next
  case (Cons t ts)
  let ?q = "p\<lparr>appt_time := t\<rparr>"
  let ?db1 = "db\<lparr>appointments := appointments db @ [inserted_row ?q (lastrowid (appointments db)) now]\<rparr>"
  have cr: "create_appointment today now ?q db = Inr (joined (inserted_row ?q (lastrowid (appointments db)) now) svc, ?db1)"
    unfolding create_appointment_Inr_iff using assms(1) Cons.prems by simp
  have g: "get_service (service_id p) ?db1 = Inr svc"
    using Cons.prems(1) by (simp add: get_service_def split: if_splits)
  have c1: "count_booked_for_day (service_id p) (appt_date p) ?db1 + length ts \<le> DAILY_CAPACITY"
    using Cons.prems(4) by (simp add: count_booked_for_day_insert)
  have c2: "\<forall>u \<in> set ts. count_booked_for_slot (service_id p) (appt_date p) u ?db1 = 0"
    using Cons.prems(2,5) by (auto simp: count_booked_for_slot_insert)
  from Cons.IH [OF g _ _ c1 c2] Cons.prems(2,3)
  obtain db' where
    b: "book_all (map (\<lambda>t. (today, now, p\<lparr>appt_time := t\<rparr>)) ts) ?db1 = Inr db'" and
    c: "\<forall>u. count_booked_for_slot (service_id p) (appt_date p) u db' =
              count_booked_for_slot (service_id p) (appt_date p) u ?db1 + (if u \<in> set ts then 1 else 0)"
    by auto
  have "book_all (map (\<lambda>t. (today, now, p\<lparr>appt_time := t\<rparr>)) (t # ts)) db = Inr db'"
    using cr b by simp
  moreover have "\<forall>u. count_booked_for_slot (service_id p) (appt_date p) u db' =
              count_booked_for_slot (service_id p) (appt_date p) u db + (if u \<in> set (t # ts) then 1 else 0)"
    using c Cons.prems(2) by (auto simp: count_booked_for_slot_insert)
  ultimately show ?case by blast
qed

lemma ALL_SLOTS_value:
  "ALL_SLOTS =
     [''09:00'', ''09:30'', ''10:00'', ''10:30'', ''11:00'', ''11:30'', ''12:00'', ''12:30'',
      ''13:00'', ''13:30'', ''14:00'', ''14:30'', ''15:00'', ''15:30'', ''16:00'', ''16:30'']"
  by (simp add: ALL_SLOTS_def generate_slots_value)

lemma distinct_ALL_SLOTS: "distinct ALL_SLOTS"
  by (simp add: ALL_SLOTS_value)

lemma demo_date_allowed: "is_date_allowed (Date 2026 11 3) ''2026-11-03'' = Inr True"
  by code_simp

lemma demo_payload_simps:
  "service_id (demo_payload t) = 1" "appt_date (demo_payload t) = ''2026-11-03''"
  "appt_time (demo_payload t) = t" "(demo_payload u)\<lparr>appt_time := t\<rparr> = demo_payload t"
  by (simp_all add: demo_payload_def)

lemma get_service_init:
  "get_service 1 init_db = Inr \<lparr>svc_id = 1, svc_name = ''General Consultation'', duration_minutes = 30\<rparr>"
  by (simp add: get_service_def init_db_def sqlite_int_def)









lemma create_occupied_error:
  assumes "0 < count_booked_for_slot (service_id p) (appt_date p) (appt_time p) db"
    and "is_date_allowed today (appt_date p) = Inr True"
    and "get_service (service_id p) db = Inr svc"
    and "appt_time p \<in> set ALL_SLOTS"
  shows "create_appointment today now p db =
           Inl (if count_booked_for_day (service_id p) (appt_date p) db < DAILY_CAPACITY
                then SlotTaken else DayFull)"
  using assms by (simp add: create_appointment_def)

subsection \<open>Booking ledger: days and canonical dates\<close>

lemma strptime_Ymd_valid: "strptime_Ymd s = Inr d \<Longrightarrow> valid_date d"
  by (auto simp: strptime_Ymd_def mk_date_def split: list.splits prod.splits if_splits)

lemma canonical_date_parse:
  assumes "canonical_date ds"
  shows "strptime_Ymd ds = Inr d \<longleftrightarrow> valid_date d \<and> ds = strftime_Ymd d"
proof
  assume p: "strptime_Ymd ds = Inr d"
  with assms have "strftime_Ymd d = ds" by (simp add: canonical_date_def)
  with strptime_Ymd_valid [OF p] show "valid_date d \<and> ds = strftime_Ymd d" by simp
next
  assume "valid_date d \<and> ds = strftime_Ymd d"
  then show "strptime_Ymd ds = Inr d" by (simp add: strptime_Ymd_strftime_Ymd)
qed



lemma canonical_rows_iff:
  "canonical_rows db \<longleftrightarrow> (\<forall>a \<in> set (appointments db). canonical_date (appt_date a))"
  by (simp add: canonical_rows_def list_all_iff)




lemma count_on_day_text:
  assumes "canonical_rows db" "valid_date d"
  shows "count_booked_on_day sid d db = count_booked_for_day sid (strftime_Ymd d) db"
proof -
  have "filter (\<lambda>a. status a = ''booked'' \<and> service_id a = sid \<and>
                     strptime_Ymd (appt_date a) = Inr d) (appointments db) =
        filter (\<lambda>a. status a = ''booked'' \<and> service_id a = sid \<and>
                     appt_date a = strftime_Ymd d) (appointments db)"
  proof (rule filter_cong [OF refl])
    fix a assume "a \<in> set (appointments db)"
    with assms(1) have "canonical_date (appt_date a)" by (simp add: canonical_rows_iff)
    from canonical_date_parse [OF this, of d] assms(2)
    show "(status a = ''booked'' \<and> service_id a = sid \<and> strptime_Ymd (appt_date a) = Inr d) =
          (status a = ''booked'' \<and> service_id a = sid \<and> appt_date a = strftime_Ymd d)"
      by simp
  qed
  then show ?thesis by (simp only: count_booked_on_day_def count_booked_for_day_def)
qed




lemma count_for_slot_not_stored:
  assumes "\<forall>a \<in> set (appointments db). appt_date a \<noteq> ds"
  shows "count_booked_for_slot sid ds t db = 0" "count_booked_for_day sid ds db = 0"
  using assms by (auto simp: count_booked_for_slot_def count_booked_for_day_def filter_empty_conv)









lemma one_booking_db_value:
  "one_booking_db =
     init_db\<lparr>appointments := [inserted_row (demo_payload ''09:00'') 1 ''2026-11-03T08:00:00'']\<rparr>"
proof -
  have "''09:00'' \<in> set ALL_SLOTS" by (simp add: ALL_SLOTS_value)
  moreover have "appointments init_db = []" by (simp add: init_db_def)
  ultimately show ?thesis
    by (simp add: one_booking_db_def run_def apply_request_def create_appointment_def
                  demo_payload_simps demo_date_allowed get_service_init
                  count_booked_for_day_def count_booked_for_slot_def DAILY_CAPACITY_16
                  lastrowid_def)
qed

lemma one_booking_db_rows:
  "appointments one_booking_db = [inserted_row (demo_payload ''09:00'') 1 ''2026-11-03T08:00:00'']"
  by (simp add: one_booking_db_value)

lemma unpadded_payload_simps:
  "service_id (unpadded_payload t) = 1" "appt_date (unpadded_payload t) = ''2026-11-3''"
  "appt_time (unpadded_payload t) = t"
  by (simp_all add: unpadded_payload_def)

lemma unpadded_date_allowed: "is_date_allowed (Date 2026 11 3) ''2026-11-3'' = Inr True"
  by code_simp

lemma demo_date_parse: "strptime_Ymd ''2026-11-03'' = Inr (Date 2026 11 3)"
  by code_simp


lemma unpadded_not_canonical: "\<not> canonical_date ''2026-11-3''"
  by (simp add: canonical_date_def strptime_examples strftime_examples)
















subsection \<open>Booking ledger: cancelling and listing\<close>

lemma find_None_ids: "find (\<lambda>a. appt_id a = i) rows = None \<longleftrightarrow> (\<forall>a \<in> set rows. appt_id a \<noteq> i)"
  by (auto simp: find_None_iff)

lemma update_cancelled_ids: "map appt_id (update_cancelled i rows) = map appt_id rows"
  by (simp add: update_cancelled_def)

lemma update_cancelled_status:
  "a \<in> set (update_cancelled i rows) \<Longrightarrow> appt_id a = i \<Longrightarrow> status a = ''cancelled''"
proof -
  assume "a \<in> set (update_cancelled i rows)" and i: "appt_id a = i"
  then have "a \<in> (\<lambda>b. if appt_id b = i then b\<lparr>status := ''cancelled''\<rparr> else b) ` set rows"
    by (simp only: update_cancelled_def set_map)
  then obtain b where a: "a = (if appt_id b = i then b\<lparr>status := ''cancelled''\<rparr> else b)"
    by (rule imageE)
  show "status a = ''cancelled''"
  proof (cases "appt_id b = i")
    case True
    then show ?thesis by (simp add: a)
  next
    case False
    then show ?thesis using a i by simp
  qed
qed

lemma update_cancelled_other:
  "a \<in> set rows \<Longrightarrow> appt_id a \<noteq> i \<Longrightarrow> a \<in> set (update_cancelled i rows)"
proof -
  assume a: "a \<in> set rows" and i: "appt_id a \<noteq> i"
  have "a = (\<lambda>a. if appt_id a = i then a\<lparr>status := ''cancelled''\<rparr> else a) a"
    using i by simp
  then have "a \<in> (\<lambda>a. if appt_id a = i then a\<lparr>status := ''cancelled''\<rparr> else a) ` set rows"
    using a by (rule image_eqI)
  then show ?thesis unfolding update_cancelled_def by simp
qed

lemma update_cancelled_keeps:
  "a \<in> set rows \<Longrightarrow> status a = ''cancelled'' \<Longrightarrow> a \<in> set (update_cancelled i rows)"
proof -
  assume a: "a \<in> set rows" and s: "status a = ''cancelled''"
  have "a = (\<lambda>a. if appt_id a = i then a\<lparr>status := ''cancelled''\<rparr> else a) a"
    using s by (cases a) auto
  then have "a \<in> (\<lambda>a. if appt_id a = i then a\<lparr>status := ''cancelled''\<rparr> else a) ` set rows"
    using a by (rule image_eqI)
  then show ?thesis unfolding update_cancelled_def by simp
qed

lemma find_update_cancelled:
  "find (\<lambda>a. appt_id a = i) rows = Some row \<Longrightarrow>
   find (\<lambda>a. appt_id a = i) (update_cancelled i rows) = Some (row\<lparr>status := ''cancelled''\<rparr>)"
  by (induction rows) (auto simp: update_cancelled_def split: if_splits)

lemma cancel_appointment_twice:
  assumes "cancel_appointment i db = Inr (ok, db')"
  shows "ok \<and> cancel_appointment i db' = Inr (True, db') \<and>
         (\<exists>a \<in> set (appointments db'). appt_id a = i \<and> status a = ''cancelled'')"
proof -
  from assms have si: "sqlite_int i"
    by (auto simp: cancel_appointment_def split: if_splits)
  from assms obtain row where f: "find (\<lambda>a. appt_id a = i) (appointments db) = Some row"
    by (auto simp: cancel_appointment_def split: option.splits if_splits)
  then have rin: "row \<in> set (appointments db)" "appt_id row = i"
    by (auto simp: find_Some_iff)
  show ?thesis
  proof (cases "status row = ''cancelled''")
    case True
    with assms f si have "ok" "db' = db" by (auto simp: cancel_appointment_def)
    then show ?thesis using f True rin si by (auto simp: cancel_appointment_def)
  next
    case False
    with assms f si have ok: "ok" and d: "db' = db\<lparr>appointments := update_cancelled i (appointments db)\<rparr>"
      by (auto simp: cancel_appointment_def)
    have f': "find (\<lambda>a. appt_id a = i) (appointments db') = Some (row\<lparr>status := ''cancelled''\<rparr>)"
      unfolding d using find_update_cancelled [OF f] by simp
    then have "row\<lparr>status := ''cancelled''\<rparr> \<in> set (appointments db')"
      by (auto simp: find_Some_iff)
    moreover have "appt_id (row\<lparr>status := ''cancelled''\<rparr>) = i"
      "status (row\<lparr>status := ''cancelled''\<rparr>) = ''cancelled''"
      using rin by simp_all
    ultimately have ex: "\<exists>a \<in> set (appointments db'). appt_id a = i \<and> status a = ''cancelled''"
      by blast
    have "cancel_appointment i db' = Inr (True, db')"
      using f' si by (simp add: cancel_appointment_def)
    then show ?thesis using ok ex by blast
  qed
qed

lemma cancelled_terminal_step:
  assumes "a \<in> set (appointments db)" "status a = ''cancelled''"
  shows "a \<in> set (appointments (apply_request r db))"
proof -
  from apply_request_cases [of r db] show ?thesis
  proof (elim disjE exE conjE)
    assume "apply_request r db = db" then show ?thesis using assms by simp
  next
    fix today now p svc
    assume "apply_request r db =
        db\<lparr>appointments := appointments db @ [inserted_row p (lastrowid (appointments db)) now]\<rparr>"
    then show ?thesis using assms by simp
  next
    fix i assume "apply_request r db = db\<lparr>appointments := update_cancelled i (appointments db)\<rparr>"
    then show ?thesis using update_cancelled_keeps [OF assms] by simp
  qed
qed

lemma cancelled_terminal_run:
  assumes "a \<in> set (appointments db)" "status a = ''cancelled''"
  shows "a \<in> set (appointments (run rs db))"
  using assms
proof (induction rs arbitrary: db)
  case Nil
  then show ?case by (simp add: run_Nil)
next
  case (Cons r rs)
  show ?case unfolding run_Cons
    by (rule Cons.IH [OF cancelled_terminal_step [OF Cons.prems] Cons.prems(2)])
qed

text \<open>
  Claim C4, as the code has it. An identifier that fits the 64-bit \<^verbatim>\<open>INTEGER\<close> of SQLite:
  \<open>cancel_appointment\<close> fails with the not-found error exactly when no appointment has the
  identifier. When the appointment is already cancelled the call returns ok and the state
  is unchanged. Otherwise it returns ok and sets the status of that identifier to
  \<open>cancelled\<close>, leaving the other rows and all identifiers as they were. After any
  successful cancel a second cancel returns ok again and changes nothing, and the
  appointment is cancelled after either call. A cancelled row is never changed again by any
  sequence of creates and cancels. An identifier outside the 64-bit range makes the call
  raise \<^verbatim>\<open>OverflowError\<close> while the \<^verbatim>\<open>SELECT\<close> binds it, whatever the table holds; the
  call raises nothing else.
\<close>

theorem cancel_appointment_spec:
  "(sqlite_int i \<longrightarrow>
      (cancel_appointment i db = Inl NotFound \<longleftrightarrow> (\<forall>a \<in> set (appointments db). appt_id a \<noteq> i))) \<and>
   (\<not> sqlite_int i \<longrightarrow> cancel_appointment i db = Inl OverflowError) \<and>
   (\<forall>e. cancel_appointment i db = Inl e \<longrightarrow>
      sqlite_int i \<and> e = NotFound \<or> \<not> sqlite_int i \<and> e = OverflowError) \<and>
   (\<forall>row. sqlite_int i \<and> find (\<lambda>a. appt_id a = i) (appointments db) = Some row \<and>
          status row = ''cancelled'' \<longrightarrow>
      cancel_appointment i db = Inr (True, db)) \<and>
   (\<forall>row. sqlite_int i \<and> find (\<lambda>a. appt_id a = i) (appointments db) = Some row \<and>
          status row \<noteq> ''cancelled'' \<longrightarrow>
      cancel_appointment i db =
        Inr (True, db\<lparr>appointments := update_cancelled i (appointments db)\<rparr>) \<and>
      (\<forall>a \<in> set (update_cancelled i (appointments db)). appt_id a = i \<longrightarrow> status a = ''cancelled'') \<and>
      (\<forall>a \<in> set (appointments db). appt_id a \<noteq> i \<longrightarrow> a \<in> set (update_cancelled i (appointments db))) \<and>
      map appt_id (update_cancelled i (appointments db)) = map appt_id (appointments db)) \<and>
   (\<forall>ok db'. cancel_appointment i db = Inr (ok, db') \<longrightarrow>
      ok \<and> cancel_appointment i db' = Inr (True, db') \<and>
      (\<exists>a \<in> set (appointments db'). appt_id a = i \<and> status a = ''cancelled'')) \<and>
   (\<forall>a rs. a \<in> set (appointments db) \<and> status a = ''cancelled'' \<longrightarrow>
      a \<in> set (appointments (run rs db)))"
proof -
  note cases = cancel_appointment_cases [of i db]
  have 1: "sqlite_int i \<longrightarrow>
      (cancel_appointment i db = Inl NotFound \<longleftrightarrow> (\<forall>a \<in> set (appointments db). appt_id a \<noteq> i))"
  proof (intro impI iffI)
    assume "sqlite_int i" "cancel_appointment i db = Inl NotFound"
    with cases have "find (\<lambda>a. appt_id a = i) (appointments db) = None" by auto
    then show "\<forall>a \<in> set (appointments db). appt_id a \<noteq> i" by (simp only: find_None_ids)
  next
    assume si: "sqlite_int i" and "\<forall>a \<in> set (appointments db). appt_id a \<noteq> i"
    then have "find (\<lambda>a. appt_id a = i) (appointments db) = None" by (simp only: find_None_ids)
    then show "cancel_appointment i db = Inl NotFound" using si by (simp add: cancel_appointment_def)
  qed
  have 2: "\<not> sqlite_int i \<longrightarrow> cancel_appointment i db = Inl OverflowError"
    by (simp add: cancel_appointment_def)
  have 3: "\<forall>e. cancel_appointment i db = Inl e \<longrightarrow>
      sqlite_int i \<and> e = NotFound \<or> \<not> sqlite_int i \<and> e = OverflowError"
    using cases by auto
  have 4: "\<forall>row. sqlite_int i \<and> find (\<lambda>a. appt_id a = i) (appointments db) = Some row \<and>
          status row = ''cancelled'' \<longrightarrow>
      cancel_appointment i db = Inr (True, db)"
    by (simp add: cancel_appointment_def)
  have 5: "\<forall>row. sqlite_int i \<and> find (\<lambda>a. appt_id a = i) (appointments db) = Some row \<and>
          status row \<noteq> ''cancelled'' \<longrightarrow>
      cancel_appointment i db =
        Inr (True, db\<lparr>appointments := update_cancelled i (appointments db)\<rparr>) \<and>
      (\<forall>a \<in> set (update_cancelled i (appointments db)). appt_id a = i \<longrightarrow> status a = ''cancelled'') \<and>
      (\<forall>a \<in> set (appointments db). appt_id a \<noteq> i \<longrightarrow> a \<in> set (update_cancelled i (appointments db))) \<and>
      map appt_id (update_cancelled i (appointments db)) = map appt_id (appointments db)"
  proof (intro allI impI conjI ballI)
    fix row
    assume "sqlite_int i \<and> find (\<lambda>a. appt_id a = i) (appointments db) = Some row \<and>
            status row \<noteq> ''cancelled''"
    then show "cancel_appointment i db =
        Inr (True, db\<lparr>appointments := update_cancelled i (appointments db)\<rparr>)"
      by (simp add: cancel_appointment_def)
  next
    fix a
    assume "a \<in> set (update_cancelled i (appointments db))" "appt_id a = i"
    then show "status a = ''cancelled''" by (rule update_cancelled_status)
  next
    fix a
    assume "a \<in> set (appointments db)" "appt_id a \<noteq> i"
    then show "a \<in> set (update_cancelled i (appointments db))" by (rule update_cancelled_other)
  next
    show "map appt_id (update_cancelled i (appointments db)) = map appt_id (appointments db)"
      by (rule update_cancelled_ids)
  qed
  have 6: "\<forall>ok db'. cancel_appointment i db = Inr (ok, db') \<longrightarrow>
      ok \<and> cancel_appointment i db' = Inr (True, db') \<and>
      (\<exists>a \<in> set (appointments db'). appt_id a = i \<and> status a = ''cancelled'')"
    using cancel_appointment_twice by blast
  have 7: "\<forall>a rs. a \<in> set (appointments db) \<and> status a = ''cancelled'' \<longrightarrow>
      a \<in> set (appointments (run rs db))"
    using cancelled_terminal_run by blast
  show ?thesis
    by (rule conjI [OF 1 conjI [OF 2 conjI [OF 3 conjI [OF 4 conjI [OF 5 conjI [OF 6 7]]]]]])
qed

theorem cancel_appointment_spec_counterexample:
  "9223372036854775808 \<notin> set (map appt_id (appointments one_booking_db)) \<and>
   cancel_appointment 9223372036854775808 one_booking_db = Inl OverflowError \<and>
   cancel_appointment 9223372036854775808 one_booking_db \<noteq> Inl NotFound"
  by (simp add: cancel_appointment_def sqlite_int_def one_booking_db_rows inserted_row_def)

theorem cancel_appointment_spec_witness:
  "sqlite_int 7 \<and>
   cancel_appointment 7 one_booking_db = Inl NotFound \<and>
   sqlite_int 1 \<and>
   find (\<lambda>a. appt_id a = 1) (appointments one_booking_db)
     = Some (inserted_row (demo_payload ''09:00'') 1 ''2026-11-03T08:00:00'') \<and>
   status (inserted_row (demo_payload ''09:00'') 1 ''2026-11-03T08:00:00'') \<noteq> ''cancelled'' \<and>
   cancel_appointment 1 one_booking_db
     = Inr (True, one_booking_db\<lparr>appointments := update_cancelled 1 (appointments one_booking_db)\<rparr>) \<and>
   cancel_appointment 1
       (one_booking_db\<lparr>appointments := update_cancelled 1 (appointments one_booking_db)\<rparr>)
     = Inr (True, one_booking_db\<lparr>appointments := update_cancelled 1 (appointments one_booking_db)\<rparr>) \<and>
   map status (update_cancelled 1 (appointments one_booking_db)) = [''cancelled''] \<and>
   \<not> sqlite_int (- 9223372036854775809) \<and>
   cancel_appointment (- 9223372036854775809) one_booking_db = Inl OverflowError"
proof -
  let ?row = "inserted_row (demo_payload ''09:00'') 1 ''2026-11-03T08:00:00''"
  let ?db2 = "one_booking_db\<lparr>appointments := update_cancelled 1 (appointments one_booking_db)\<rparr>"
  have s7: "sqlite_int 7" and s1: "sqlite_int 1" and sn: "\<not> sqlite_int (- 9223372036854775809)"
    by (simp_all add: sqlite_int_def)
  have ids: "\<forall>a \<in> set (appointments one_booking_db). appt_id a \<noteq> 7"
    by (simp add: one_booking_db_rows inserted_row_def)
  have f: "find (\<lambda>a. appt_id a = 1) (appointments one_booking_db) = Some ?row"
    by (simp add: one_booking_db_rows inserted_row_def)
  have st: "status ?row \<noteq> ''cancelled''" by (simp add: inserted_row_def)
  have n: "cancel_appointment 7 one_booking_db = Inl NotFound"
    using cancel_appointment_spec [of 7 one_booking_db] ids s7 by blast
  have c1: "cancel_appointment 1 one_booking_db = Inr (True, ?db2)"
    using cancel_appointment_spec [of 1 one_booking_db] f st s1 by blast
  have c2: "cancel_appointment 1 ?db2 = Inr (True, ?db2)"
    using cancel_appointment_spec [of 1 one_booking_db] c1 by blast
  have m: "map status (update_cancelled 1 (appointments one_booking_db)) = [''cancelled'']"
    by (simp add: one_booking_db_rows update_cancelled_def inserted_row_def)
  have o: "cancel_appointment (- 9223372036854775809) one_booking_db = Inl OverflowError"
    using cancel_appointment_spec [of "- 9223372036854775809" one_booking_db] sn by blast
  show ?thesis
    by (rule conjI [OF s7 conjI [OF n conjI [OF s1 conjI [OF f conjI [OF st conjI [OF c1
          conjI [OF c2 conjI [OF m conjI [OF sn o]]]]]]]]])
qed

lemma set_list_appointments:
  "set (list_appointments ph db) =
     {joined a s | a s. a \<in> set (appointments db) \<and> phone a = strip ph \<and>
                        s \<in> set (services db) \<and> svc_id s = service_id a}"
  by (auto simp: list_appointments_def Let_def)

lemma sorted_list_appointments:
  "sorted_wrt (\<lambda>a b. (appt_date b, appt_time b) \<le> (appt_date a, appt_time a))
     (list_appointments ph db)"
proof -
  define rows where "rows = concat (map (\<lambda>a. map (joined a)
                                      (filter (\<lambda>s. svc_id s = service_id a) (services db)))
                             (filter (\<lambda>a. phone a = strip ph) (appointments db)))"
  have "sorted (map (\<lambda>r. (appt_date r, appt_time r))
                 (sort_key (\<lambda>r. (appt_date r, appt_time r)) (rev rows)))"
    by (rule sorted_sort_key)
  then have "sorted_wrt (\<lambda>a b. (appt_date a, appt_time a) \<le> (appt_date b, appt_time b))
               (sort_key (\<lambda>r. (appt_date r, appt_time r)) (rev rows))"
    by (simp only: sorted_map)
  then have "sorted_wrt (\<lambda>a b. (appt_date b, appt_time b) \<le> (appt_date a, appt_time a))
               (rev (sort_key (\<lambda>r. (appt_date r, appt_time r)) (rev rows)))"
    by (simp only: sorted_wrt_rev)
  then show ?thesis by (simp only: list_appointments_def Let_def rows_def)
qed

lemma get_service_Inr: "get_service sid db = Inr svc \<Longrightarrow> svc \<in> set (services db) \<and> svc_id svc = sid"
  by (auto simp: get_service_def find_Some_iff split: option.splits if_splits)

lemma joined_fields:
  "patient_name (joined a s) = patient_name a" "phone (joined a s) = phone a"
  "situation_type (joined a s) = situation_type a" "service_id (joined a s) = service_id a"
  "appt_date (joined a s) = appt_date a" "appt_time (joined a s) = appt_time a"
  "appt_id (joined a s) = appt_id a" "status (joined a s) = status a"
  "created_at (joined a s) = created_at a" "service_name (joined a s) = svc_name s"
  by (simp_all add: joined_def)

lemma inserted_row_fields:
  "patient_name (inserted_row p n now) = strip (patient_name p)"
  "phone (inserted_row p n now) = strip (phone p)"
  "situation_type (inserted_row p n now) = situation_type p"
  "service_id (inserted_row p n now) = service_id p"
  "appt_date (inserted_row p n now) = appt_date p"
  "appt_time (inserted_row p n now) = appt_time p"
  "appt_id (inserted_row p n now) = n" "status (inserted_row p n now) = ''booked''"
  "created_at (inserted_row p n now) = now"
  by (simp_all add: inserted_row_def)

lemma dropWhile_rev_start:
  assumes "t = [] \<or> \<not> P (hd t)"
  shows "rev (dropWhile P (rev t)) = [] \<or> \<not> P (hd (rev (dropWhile P (rev t))))"
proof (cases t)
  case Nil
  then show ?thesis by simp
next
  case (Cons x t')
  with assms have x: "\<not> P x" by simp
  have "dropWhile P (rev t' @ [x]) = dropWhile P (rev t') @ [x]"
    using x by (simp add: dropWhile_append)
  then have "rev (dropWhile P (rev t)) = x # rev (dropWhile P (rev t'))"
    by (simp add: Cons)
  then show ?thesis using x by simp
qed

lemma dropWhile_start: "dropWhile P s = [] \<or> \<not> P (hd (dropWhile P s))"
  using hd_dropWhile [of P s] by blast

lemma dropWhile_id: "u = [] \<or> \<not> P (hd u) \<Longrightarrow> dropWhile P u = u"
  by (cases u) auto

lemma strip_strip: "strip (strip s) = strip s"
proof -
  define t where "t = dropWhile is_space s"
  define u where "u = rev (dropWhile is_space (rev t))"
  have "u = [] \<or> \<not> is_space (hd u)"
    unfolding u_def t_def by (rule dropWhile_rev_start) (rule dropWhile_start)
  then have 1: "dropWhile is_space u = u" by (rule dropWhile_id)
  have 2: "rev u = dropWhile is_space (rev t)" by (simp add: u_def)
  have "strip u = u"
    unfolding strip_def 1 2 by (simp add: u_def)
  then show ?thesis by (simp add: strip_def u_def t_def)
qed

lemma create_appointment_listed:
  assumes "create_appointment today now p db = Inr (out, db')"
  shows "out \<in> set (list_appointments (phone p) db') \<and>
         out \<in> set (list_appointments (strip (phone p)) db')"
proof -
  let ?row = "inserted_row p (lastrowid (appointments db)) now"
  from assms [unfolded create_appointment_Inr_iff] obtain svc where
    g: "get_service (service_id p) db = Inr svc" and out: "out = joined ?row svc"
    and db': "db' = db\<lparr>appointments := appointments db @ [?row]\<rparr>"
    by blast
  have s: "svc \<in> set (services db')" "svc_id svc = service_id ?row"
    using get_service_Inr [OF g] by (simp_all add: db' inserted_row_fields)
  have r: "?row \<in> set (appointments db')" by (simp add: db')
  have ph: "phone ?row = strip (phone p)" "phone ?row = strip (strip (phone p))"
    by (simp_all add: inserted_row_fields strip_strip)
  show ?thesis
    unfolding set_list_appointments out using r s ph by blast
qed

lemma create_appointment_out_fields:
  assumes "create_appointment today now p db = Inr (out, db')"
  shows "patient_name out = strip (patient_name p) \<and> phone out = strip (phone p) \<and>
         situation_type out = situation_type p \<and> service_id out = service_id p \<and>
         appt_date out = appt_date p \<and> appt_time out = appt_time p \<and> status out = ''booked''"
proof -
  from assms [unfolded create_appointment_Inr_iff] obtain svc where
    "out = joined (inserted_row p (lastrowid (appointments db)) now) svc"
    by blast
  then show ?thesis by (simp add: joined_fields inserted_row_fields)
qed

lemma list_appointments_phone: "r \<in> set (list_appointments ph db) \<Longrightarrow> phone r = strip ph"
  unfolding set_list_appointments by (auto simp: joined_fields)

lemma prod_le_lex:
  "((a::string, b::string) \<le> (c, d)) = (a < c \<or> a = c \<and> b \<le> d)"
  by auto

lemma strip_examples:
  "strip ''  Ann Lee '' = ''Ann Lee''" "strip '' 0123456  '' = ''0123456''"
  "strip ''Ann Lee'' = ''Ann Lee''" "strip ''0123456'' = ''0123456''"
  by (simp_all add: strip_def is_space_def)

lemma padded_date_allowed: "is_date_allowed (Date 2026 11 3) ''2026-11-20'' = Inr True"
  by code_simp

lemma two_days_db_value:
  "two_days_db =
     init_db\<lparr>appointments :=
       [inserted_row padded_payload 1 ''2026-11-03T08:00:00'',
        inserted_row (unpadded_payload ''09:00'') 2 ''2026-11-03T08:01:00'']\<rparr>"
proof -
  let ?row1 = "inserted_row padded_payload 1 ''2026-11-03T08:00:00''"
  let ?row2 = "inserted_row (unpadded_payload ''09:00'') 2 ''2026-11-03T08:01:00''"
  let ?svc = "\<lparr>svc_id = 1, svc_name = ''General Consultation'', duration_minutes = 30\<rparr>"
  let ?db1 = "init_db\<lparr>appointments := [?row1]\<rparr>"
  have s: "''10:30'' \<in> set ALL_SLOTS" "''09:00'' \<in> set ALL_SLOTS"
    by (simp_all add: ALL_SLOTS_value)
  have e: "appointments init_db = []" by (simp add: init_db_def)
  have p: "service_id padded_payload = 1" "appt_date padded_payload = ''2026-11-20''"
          "appt_time padded_payload = ''10:30''"
    by (simp_all add: padded_payload_def)
  have c1: "create_appointment (Date 2026 11 3) ''2026-11-03T08:00:00'' padded_payload init_db =
              Inr (joined ?row1 ?svc, ?db1)"
    unfolding create_appointment_Inr_iff
    using s by (simp add: p padded_date_allowed get_service_init count_booked_for_day_def
                          count_booked_for_slot_def e DAILY_CAPACITY_16 lastrowid_def)
  have g: "get_service 1 ?db1 = get_service 1 init_db"
    by (rule get_service_services) simp
  have r1: "appointments ?db1 = [?row1]" by simp
  have l: "lastrowid [?row1] = 2" by (simp add: lastrowid_def inserted_row_def)
  have c: "count_booked_for_day 1 ''2026-11-3'' ?db1 = 0"
          "count_booked_for_slot 1 ''2026-11-3'' ''09:00'' ?db1 = 0"
    by (simp_all add: count_booked_for_day_def count_booked_for_slot_def inserted_row_def p)
  have c2: "create_appointment (Date 2026 11 3) ''2026-11-03T08:01:00'' (unpadded_payload ''09:00'')
              ?db1 = Inr (joined ?row2 ?svc, ?db1\<lparr>appointments := appointments ?db1 @ [?row2]\<rparr>)"
    unfolding create_appointment_Inr_iff r1 l
    using s by (simp add: unpadded_payload_simps unpadded_date_allowed g get_service_init c
                          DAILY_CAPACITY_16)
  have "two_days_db =
          apply_request (Create (Date 2026 11 3) ''2026-11-03T08:01:00'' (unpadded_payload ''09:00''))
            (apply_request (Create (Date 2026 11 3) ''2026-11-03T08:00:00'' padded_payload) init_db)"
    by (simp add: two_days_db_def run_def)
  also have "\<dots> = ?db1\<lparr>appointments := appointments ?db1 @ [?row2]\<rparr>"
    by (simp only: apply_request_def request.case c1 c2 sum.case prod.case)
  finally show ?thesis by simp
qed

lemma unpadded_above_padded: "(''2026-11-20'', ''10:30'') < (''2026-11-3'', ''09:00'')"
  by simp

text \<open>
  Claim C8, at a listing that is not newest first. A patient books 20 November 2026 and
  then 3 November 2026, the second date written \<^verbatim>\<open>2026-11-3\<close>. Both bookings succeed, and
  the listing of the phone puts 3 November before 20 November: the rows are ordered by the
  text of the date, and that text is stored as it came.
\<close>

theorem list_appointments_not_newest_first:
  "map appt_id (list_appointments ''0123456'' two_days_db) = [2, 1] \<and>
   map appt_date (list_appointments ''0123456'' two_days_db) = [''2026-11-3'', ''2026-11-20''] \<and>
   map status (list_appointments ''0123456'' two_days_db) = [''booked'', ''booked''] \<and>
   strptime_Ymd ''2026-11-3'' = Inr (Date 2026 11 3) \<and>
   strptime_Ymd ''2026-11-20'' = Inr (Date 2026 11 20) \<and>
   date_lt (Date 2026 11 3) (Date 2026 11 20)"
proof -
  let ?row1 = "inserted_row padded_payload 1 ''2026-11-03T08:00:00''"
  let ?row2 = "inserted_row (unpadded_payload ''09:00'') 2 ''2026-11-03T08:01:00''"
  let ?svc = "\<lparr>svc_id = 1, svc_name = ''General Consultation'', duration_minutes = 30\<rparr>"
  have l: "list_appointments ''0123456'' two_days_db = [joined ?row2 ?svc, joined ?row1 ?svc]"
    using unpadded_above_padded
    by (simp add: list_appointments_def Let_def two_days_db_value init_db_def strip_examples
                  inserted_row_def padded_payload_def unpadded_payload_def joined_def)
  have 1: "map appt_id (list_appointments ''0123456'' two_days_db) = [2, 1]"
    unfolding l by (simp add: joined_def inserted_row_def)
  have 2: "map appt_date (list_appointments ''0123456'' two_days_db) =
             [''2026-11-3'', ''2026-11-20'']"
    unfolding l by (simp add: joined_def inserted_row_def padded_payload_def unpadded_payload_def)
  have 3: "map status (list_appointments ''0123456'' two_days_db) = [''booked'', ''booked'']"
    unfolding l by (simp add: joined_def inserted_row_def)
  have 4: "strptime_Ymd ''2026-11-3'' = Inr (Date 2026 11 3)" by (rule strptime_examples(1))
  have 5: "strptime_Ymd ''2026-11-20'' = Inr (Date 2026 11 20)" by code_simp
  have 6: "date_lt (Date 2026 11 3) (Date 2026 11 20)" by (simp add: date_lt_iff)
  show ?thesis
    by (rule conjI [OF 1 conjI [OF 2 conjI [OF 3 conjI [OF 4 conjI [OF 5 6]]]]])
qed

lemma lastrowid_fresh: "a \<in> set rows \<Longrightarrow> appt_id a < lastrowid rows"
proof -
  assume "a \<in> set rows"
  then have "appt_id a \<in> set (0 # map appt_id rows)" by simp
  then have "appt_id a \<le> Max (set (0 # map appt_id rows))" by (rule Max_ge [OF finite_set])
  then show ?thesis by (simp only: lastrowid_def)
qed

lemma distinct_ids_step:
  assumes "distinct (map appt_id (appointments db))"
  shows "distinct (map appt_id (appointments (apply_request r db)))"
proof -
  from apply_request_cases [of r db] show ?thesis
  proof (elim disjE exE conjE)
    assume "apply_request r db = db" then show ?thesis using assms by simp
  next
    fix today now p svc
    assume a: "apply_request r db =
        db\<lparr>appointments := appointments db @ [inserted_row p (lastrowid (appointments db)) now]\<rparr>"
    have "lastrowid (appointments db) \<notin> appt_id ` set (appointments db)"
      using lastrowid_fresh [of _ "appointments db"] by force
    then show ?thesis using assms by (simp add: a inserted_row_fields)
  next
    fix i assume a: "apply_request r db = db\<lparr>appointments := update_cancelled i (appointments db)\<rparr>"
    show ?thesis using assms by (simp add: a update_cancelled_ids)
  qed
qed

lemma distinct_ids_run: "distinct (map appt_id (appointments (run rs init_db)))"
proof (induction rs rule: rev_induct)
  case Nil
  show ?case by (simp add: run_Nil init_db_def)
next
  case (snoc r rs)
  show ?case unfolding run_snoc by (rule distinct_ids_step [OF snoc])
qed

lemma update_cancelled_noop:
  assumes "distinct (map appt_id rows)"
    and "find (\<lambda>a. appt_id a = i) rows = Some row" and "status row = ''cancelled''"
  shows "update_cancelled i rows = rows"
proof -
  have inj: "inj_on appt_id (set rows)" using assms(1) by (simp add: distinct_map)
  have row: "row \<in> set rows" "appt_id row = i" using assms(2) by (auto simp: find_Some_iff)
  have "(if appt_id a = i then a\<lparr>status := ''cancelled''\<rparr> else a) = a" if "a \<in> set rows" for a
  proof (cases "appt_id a = i")
    case True
    with inj that row have "a = row" by (simp add: inj_on_def)
    then show ?thesis using assms(3) by simp
  next
    case False
    then show ?thesis by simp
  qed
  then show ?thesis unfolding update_cancelled_def by (simp add: map_idI)
qed

lemma cancel_appointment_distinct:
  assumes "distinct (map appt_id (appointments db))"
    and "cancel_appointment i db = Inr (ok, db')"
  shows "db' = db\<lparr>appointments := update_cancelled i (appointments db)\<rparr>"
proof -
  from assms(2) have si: "sqlite_int i"
    by (auto simp: cancel_appointment_def split: if_splits)
  from assms(2) obtain row where f: "find (\<lambda>a. appt_id a = i) (appointments db) = Some row"
    by (auto simp: cancel_appointment_def split: option.splits if_splits)
  show ?thesis
  proof (cases "status row = ''cancelled''")
    case True
    with assms(2) f si have "db' = db" by (simp add: cancel_appointment_def)
    then show ?thesis using update_cancelled_noop [OF assms(1) f True] by simp
  next
    case False
    with assms(2) f si show ?thesis by (simp add: cancel_appointment_def)
  qed
qed

lemma insort_key_map:
  assumes "\<And>x. k (g x) = k x"
  shows "insort_key k (g x) (map g xs) = map g (insort_key k x xs)"
  by (induction xs) (simp_all add: assms)

lemma sort_key_map:
  assumes "\<And>x. k (g x) = k x"
  shows "sort_key k (map g xs) = map g (sort_key k xs)"
  by (induction xs) (simp_all add: insort_key_map [of k g, OF assms])

lemma joined_update_cancelled:
  "joined (if appt_id a = i then a\<lparr>status := ''cancelled''\<rparr> else a) s =
     (if appt_id (joined a s) = i then (joined a s)\<lparr>status := ''cancelled''\<rparr> else joined a s)"
  by (simp add: joined_def)

lemma list_appointments_update_cancelled:
  "list_appointments ph (db\<lparr>appointments := update_cancelled i (appointments db)\<rparr>) =
     map (\<lambda>r. if appt_id r = i then r\<lparr>status := ''cancelled''\<rparr> else r) (list_appointments ph db)"
proof -
  let ?u = "\<lambda>a::appointment. if appt_id a = i then a\<lparr>status := ''cancelled''\<rparr> else a"
  let ?g = "\<lambda>r::appointment_out. if appt_id r = i then r\<lparr>status := ''cancelled''\<rparr> else r"
  let ?F = "\<lambda>a::appointment. map (joined a) (filter (\<lambda>s. svc_id s = service_id a) (services db))"
  have rows: "concat (map ?F (filter (\<lambda>a. phone a = x) (map ?u as))) =
              map ?g (concat (map ?F (filter (\<lambda>a. phone a = x) as)))" for x as
  proof (induction as)
    case Nil
    show ?case by simp
  next
    case (Cons a as)
    have 1: "phone (?u a) = phone a" "service_id (?u a) = service_id a" by simp_all
    have 2: "?F (?u a) = map ?g (?F a)"
    proof -
      have "joined (?u a) = (\<lambda>s. ?g (joined a s))"
        by (rule ext) (rule joined_update_cancelled)
      then show ?thesis by (simp only: 1 map_map comp_def)
    qed
    show ?case
    proof (cases "phone a = x")
      case True
      then have "phone (?u a) = x" using 1 by simp
      then show ?thesis using True Cons.IH 2 by (simp del: if_split)
    next
      case False
      then have "phone (?u a) \<noteq> x" using 1 by simp
      then show ?thesis using False Cons.IH by simp
    qed
  qed
  have key: "(\<lambda>r. (appt_date r, appt_time r)) (?g r) = (\<lambda>r. (appt_date r, appt_time r)) r" for r
    by simp
  have sel: "services (db\<lparr>appointments := X\<rparr>) = services db"
            "appointments (db\<lparr>appointments := X\<rparr>) = X" for X
    by simp_all
  show ?thesis
    by (simp only: list_appointments_def Let_def update_cancelled_def sel rows
                   sort_key_map [of "\<lambda>r. (appt_date r, appt_time r)" ?g, OF key] rev_map)
qed

text \<open>
  Claim C10. A row is listed by \<open>list_appointments\<close> exactly when it is the join of an
  appointment whose phone equals the trimmed phone asked for with its service: the status
  plays no part, so cancelled appointments are listed like booked ones. Cancelling an
  appointment in a reachable state leaves the listing as it was, row for row, except
  that the rows of that identifier now show the status \<open>cancelled\<close>.
\<close>

theorem list_appointments_no_status_filter:
  "(r \<in> set (list_appointments ph db) \<longleftrightarrow>
      (\<exists>a s. r = joined a s \<and> a \<in> set (appointments db) \<and> phone a = strip ph \<and>
             s \<in> set (services db) \<and> svc_id s = service_id a)) \<and>
   (a \<in> set (appointments db) \<and> phone a = strip ph \<and> get_service (service_id a) db = Inr svc \<longrightarrow>
      joined a svc \<in> set (list_appointments ph db) \<and> status (joined a svc) = status a) \<and>
   (cancel_appointment i (run rs init_db) = Inr (ok, db') \<longrightarrow>
      list_appointments ph db' =
        map (\<lambda>r. if appt_id r = i then r\<lparr>status := ''cancelled''\<rparr> else r)
          (list_appointments ph (run rs init_db)) \<and>
      map appt_id (list_appointments ph db') = map appt_id (list_appointments ph (run rs init_db)))"
proof -
  have 1: "r \<in> set (list_appointments ph db) \<longleftrightarrow>
      (\<exists>a s. r = joined a s \<and> a \<in> set (appointments db) \<and> phone a = strip ph \<and>
             s \<in> set (services db) \<and> svc_id s = service_id a)"
    unfolding set_list_appointments by blast
  have 2: "a \<in> set (appointments db) \<and> phone a = strip ph \<and> get_service (service_id a) db = Inr svc \<longrightarrow>
      joined a svc \<in> set (list_appointments ph db) \<and> status (joined a svc) = status a"
    unfolding set_list_appointments using get_service_Inr [of "service_id a" db svc]
    by (auto simp: joined_fields)
  have 3: "cancel_appointment i (run rs init_db) = Inr (ok, db') \<longrightarrow>
      list_appointments ph db' =
        map (\<lambda>r. if appt_id r = i then r\<lparr>status := ''cancelled''\<rparr> else r)
          (list_appointments ph (run rs init_db)) \<and>
      map appt_id (list_appointments ph db') = map appt_id (list_appointments ph (run rs init_db))"
  proof (intro impI)
    assume c: "cancel_appointment i (run rs init_db) = Inr (ok, db')"
    have e: "list_appointments ph db' =
        map (\<lambda>r. if appt_id r = i then r\<lparr>status := ''cancelled''\<rparr> else r)
          (list_appointments ph (run rs init_db))"
      unfolding cancel_appointment_distinct [OF distinct_ids_run c]
      by (rule list_appointments_update_cancelled)
    have "map appt_id (list_appointments ph db') = map appt_id (list_appointments ph (run rs init_db))"
      unfolding e by (simp add: comp_def)
    with e show "list_appointments ph db' =
        map (\<lambda>r. if appt_id r = i then r\<lparr>status := ''cancelled''\<rparr> else r)
          (list_appointments ph (run rs init_db)) \<and>
      map appt_id (list_appointments ph db') = map appt_id (list_appointments ph (run rs init_db))"
      by blast
  qed
  show ?thesis by (rule conjI [OF 1 conjI [OF 2 3]])
qed

lemma one_booking_db_listing:
  "list_appointments ''0123456'' one_booking_db =
     [joined (inserted_row (demo_payload ''09:00'') 1 ''2026-11-03T08:00:00'')
        \<lparr>svc_id = 1, svc_name = ''General Consultation'', duration_minutes = 30\<rparr>]"
  by (simp add: list_appointments_def one_booking_db_value init_db_def strip_examples
                inserted_row_def demo_payload_def)

theorem list_appointments_no_status_filter_witness:
  "cancel_appointment 1
     (run [Create (Date 2026 11 3) ''2026-11-03T08:00:00'' (demo_payload ''09:00'')] init_db)
     = Inr (True, one_booking_db\<lparr>appointments := update_cancelled 1 (appointments one_booking_db)\<rparr>) \<and>
   map appt_id (list_appointments ''0123456''
     (one_booking_db\<lparr>appointments := update_cancelled 1 (appointments one_booking_db)\<rparr>)) = [1] \<and>
   map status (list_appointments ''0123456''
     (one_booking_db\<lparr>appointments := update_cancelled 1 (appointments one_booking_db)\<rparr>))
     = [''cancelled'']"
proof -
  let ?rs = "[Create (Date 2026 11 3) ''2026-11-03T08:00:00'' (demo_payload ''09:00'')]"
  let ?db2 = "one_booking_db\<lparr>appointments := update_cancelled 1 (appointments one_booking_db)\<rparr>"
  have run1: "run ?rs init_db = one_booking_db" by (simp add: one_booking_db_def)
  have c: "cancel_appointment 1 (run ?rs init_db) = Inr (True, ?db2)"
    unfolding run1
    by (simp add: cancel_appointment_def sqlite_int_def one_booking_db_rows inserted_row_def)
  from list_appointments_no_status_filter [where rs = ?rs and i = 1 and ok = True and db' = ?db2
         and ph = "''0123456''"] c
  have l: "list_appointments ''0123456'' ?db2 =
        map (\<lambda>r. if appt_id r = 1 then r\<lparr>status := ''cancelled''\<rparr> else r)
          (list_appointments ''0123456'' (run ?rs init_db))"
    by blast
  have i: "map appt_id (list_appointments ''0123456'' ?db2) = [1]"
    unfolding l run1 one_booking_db_listing by (simp add: joined_def inserted_row_def)
  have s: "map status (list_appointments ''0123456'' ?db2) = [''cancelled'']"
    unfolding l run1 one_booking_db_listing by (simp add: joined_def inserted_row_def)
  show ?thesis by (rule conjI [OF c conjI [OF i s]])
qed

subsection \<open>Booking ledger: two calls at once\<close>

lemma create_appointment_steps:
  "create_appointment today now p db =
     (case create_check today p db of
        Inl e \<Rightarrow> Inl e
      | Inr svc \<Rightarrow> Inr (create_insert now p svc db))"
  by (simp add: create_appointment_def create_check_def create_insert_def Let_def
           split: sum.splits)

lemma create_check_same:
  assumes "service_id q = service_id p" "appt_date q = appt_date p" "appt_time q = appt_time p"
  shows "create_check today q db = create_check today p db"
  unfolding create_check_def assms ..

lemma create_insert_value:
  "create_insert now p svc db =
     (joined (inserted_row p (lastrowid (appointments db)) now) svc,
      db\<lparr>appointments := appointments db @ [inserted_row p (lastrowid (appointments db)) now]\<rparr>)"
  by (simp add: create_insert_def Let_def joined_def inserted_row_def)

lemma call_step_simps:
  "call_step (today, now, p) Pending db =
     (case create_check today p db of
        Inl e \<Rightarrow> (Returned (Inl e), db)
      | Inr svc \<Rightarrow> (Checked svc, db))"
  "call_step (today, now, p) (Checked svc) db =
     (Returned (Inr (fst (create_insert now p svc db))), snd (create_insert now p svc db))"
  "call_step (today, now, p) (Returned r) db = (Returned r, db)"
  by (simp_all add: call_step_def split: prod.splits)

lemma interleave_simps:
  "interleave a b [] db = \<lparr>call_A = Pending, call_B = Pending, tables = db\<rparr>"
  "interleave a b (sched @ [Caller_A]) db =
     (let st = interleave a b sched db
      in st\<lparr>call_A := fst (call_step a (call_A st) (tables st)),
            tables := snd (call_step a (call_A st) (tables st))\<rparr>)"
  "interleave a b (sched @ [Caller_B]) db =
     (let st = interleave a b sched db
      in st\<lparr>call_B := fst (call_step b (call_B st) (tables st)),
            tables := snd (call_step b (call_B st) (tables st))\<rparr>)"
  by (simp_all add: interleave_def schedule_step_def Let_def split: prod.splits)

text \<open>A call that runs both its steps with no step of the other call between them.\<close>

lemma call_alone:
  "interleave (today, now, p) b [Caller_A, Caller_A] db =
     \<lparr>call_A = Returned (case create_appointment today now p db of
                           Inl e \<Rightarrow> Inl e | Inr (out, db1) \<Rightarrow> Inr out),
      call_B = Pending,
      tables = (case create_appointment today now p db of
                  Inl e \<Rightarrow> db | Inr (out, db1) \<Rightarrow> db1)\<rparr>"
  by (simp add: interleave_def schedule_step_def call_step_simps create_appointment_steps
           split: sum.splits prod.splits)

lemma create_after_same:
  assumes "service_id q = service_id p" "appt_date q = appt_date p" "appt_time q = appt_time p"
    and "create_appointment today now p db = Inr (out, db1)"
  shows "create_appointment today now' q db1 =
           Inl (if count_booked_for_day (service_id p) (appt_date p) db1 < DAILY_CAPACITY
                then SlotTaken else DayFull)"
proof -
  let ?row = "inserted_row p (lastrowid (appointments db)) now"
  from assms(4) [unfolded create_appointment_Inr_iff] obtain svc where
    al: "is_date_allowed today (appt_date p) = Inr True"
    and g: "get_service (service_id p) db = Inr svc"
    and t: "appt_time p \<in> set ALL_SLOTS"
    and db1: "db1 = db\<lparr>appointments := appointments db @ [?row]\<rparr>"
    by blast
  have "services db1 = services db" by (simp add: db1)
  from get_service_services [OF this, of "service_id p"] g
  have g1: "get_service (service_id q) db1 = Inr svc"
    by (simp only: assms(1))
  have pos: "0 < count_booked_for_slot (service_id q) (appt_date q) (appt_time q) db1"
    by (simp add: assms(1-3) db1 count_booked_for_slot_insert)
  have "create_appointment today now' q db1 =
           Inl (if count_booked_for_day (service_id q) (appt_date q) db1 < DAILY_CAPACITY
                then SlotTaken else DayFull)"
    by (rule create_occupied_error [OF pos _ g1]) (simp_all add: assms(2,3) al t)
  then show ?thesis by (simp only: assms(1,2))
qed

text \<open>
  Run one after the other, two calls for the same service, date and time never both
  succeed: when the first returns a booking the second is refused, with the slot-taken
  error, or with the day-full error when that booking filled the day.
\<close>

lemma calls_in_turn:
  assumes "service_id q = service_id p" "appt_date q = appt_date p" "appt_time q = appt_time p"
    and "create_appointment today now p db = Inr (out, db1)"
  shows "interleave (today, now, p) (today, now', q) [Caller_A, Caller_A, Caller_B, Caller_B] db =
           \<lparr>call_A = Returned (Inr out),
            call_B = Returned (Inl (if count_booked_for_day (service_id p) (appt_date p) db1
                                         < DAILY_CAPACITY then SlotTaken else DayFull)),
            tables = db1\<rparr>"
proof -
  from assms(4) obtain svc where c: "create_check today p db = Inr svc"
    and i: "create_insert now p svc db = (out, db1)"
    by (auto simp: create_appointment_steps split: sum.splits)
  have "create_check today q db1 =
          Inl (if count_booked_for_day (service_id p) (appt_date p) db1 < DAILY_CAPACITY
               then SlotTaken else DayFull)"
    using create_after_same [OF assms, of now'] 
    by (auto simp: create_appointment_steps split: sum.splits)
  then show ?thesis
    by (simp add: interleave_def schedule_step_def call_step_simps c i)
qed

text \<open>
  When both calls run their checks before either inserts, both pass them on the same tables
  and both insert: the slot then holds two booked appointments.
\<close>

lemma calls_interleaved:
  assumes "service_id q = service_id p" "appt_date q = appt_date p" "appt_time q = appt_time p"
    and "create_check today p db = Inr svc"
  shows "succeeded (call_A (interleave (today, now, p) (today, now', q)
                              [Caller_A, Caller_B, Caller_A, Caller_B] db)) \<and>
         succeeded (call_B (interleave (today, now, p) (today, now', q)
                              [Caller_A, Caller_B, Caller_A, Caller_B] db)) \<and>
         count_booked_for_slot (service_id p) (appt_date p) (appt_time p)
           (tables (interleave (today, now, p) (today, now', q)
                      [Caller_A, Caller_B, Caller_A, Caller_B] db)) = 2"
proof -
  have cq: "create_check today q db = Inr svc"
    using assms(4) by (simp only: create_check_same [OF assms(1-3)])
  have "count_booked_for_slot (service_id p) (appt_date p) (appt_time p) db = 0"
    using assms(4) by (auto simp: create_check_def split: sum.splits if_splits)
  then have z: "filter (\<lambda>a. status a = ''booked'' \<and> service_id a = service_id p \<and>
                          appt_date a = appt_date p \<and> appt_time a = appt_time p)
                  (appointments db) = []"
    by (simp only: count_booked_for_slot_def length_0_conv)
  show ?thesis
    by (simp add: interleave_def schedule_step_def call_step_simps assms cq succeeded_def
                  create_insert_value count_booked_for_slot_def z inserted_row_def)
qed

text \<open>
  Claim C9. Two calls of \<open>create_appointment\<close> for service 1 on 3 November 2026 at 09:00
  reach the fresh database at once. In the schedule check of \<open>A\<close>, check of \<open>B\<close>, insert of
  \<open>A\<close>, insert of \<open>B\<close> both calls return a booking and the slot holds two booked
  appointments, where the same two calls made one after the other give one booking and the
  slot-taken error.
\<close>

theorem concurrent_creates_both_succeed:
  "succeeded (call_A (interleave (Date 2026 11 3, ''2026-11-03T08:00:00'', demo_payload ''09:00'')
                        (Date 2026 11 3, ''2026-11-03T08:00:00'', demo_payload ''09:00'')
                        [Caller_A, Caller_B, Caller_A, Caller_B] init_db)) \<and>
   succeeded (call_B (interleave (Date 2026 11 3, ''2026-11-03T08:00:00'', demo_payload ''09:00'')
                        (Date 2026 11 3, ''2026-11-03T08:00:00'', demo_payload ''09:00'')
                        [Caller_A, Caller_B, Caller_A, Caller_B] init_db)) \<and>
   count_booked_on_slot 1 (Date 2026 11 3) ''09:00''
     (tables (interleave (Date 2026 11 3, ''2026-11-03T08:00:00'', demo_payload ''09:00'')
                (Date 2026 11 3, ''2026-11-03T08:00:00'', demo_payload ''09:00'')
                [Caller_A, Caller_B, Caller_A, Caller_B] init_db)) = 2 \<and>
   map appt_id
     (appointments
        (tables (interleave (Date 2026 11 3, ''2026-11-03T08:00:00'', demo_payload ''09:00'')
                   (Date 2026 11 3, ''2026-11-03T08:00:00'', demo_payload ''09:00'')
                   [Caller_A, Caller_B, Caller_A, Caller_B] init_db))) = [1, 2] \<and>
   map status
     (appointments
        (tables (interleave (Date 2026 11 3, ''2026-11-03T08:00:00'', demo_payload ''09:00'')
                   (Date 2026 11 3, ''2026-11-03T08:00:00'', demo_payload ''09:00'')
                   [Caller_A, Caller_B, Caller_A, Caller_B] init_db))) = [''booked'', ''booked''] \<and>
   call_B (interleave (Date 2026 11 3, ''2026-11-03T08:00:00'', demo_payload ''09:00'')
             (Date 2026 11 3, ''2026-11-03T08:00:00'', demo_payload ''09:00'')
             [Caller_A, Caller_A, Caller_B, Caller_B] init_db) = Returned (Inl SlotTaken)"
proof -
  let ?a = "(Date 2026 11 3, ''2026-11-03T08:00:00'', demo_payload ''09:00'')"
  let ?st = "interleave ?a ?a [Caller_A, Caller_B, Caller_A, Caller_B] init_db"
  let ?row1 = "inserted_row (demo_payload ''09:00'') 1 ''2026-11-03T08:00:00''"
  let ?row2 = "inserted_row (demo_payload ''09:00'') 2 ''2026-11-03T08:00:00''"
  let ?svc = "\<lparr>svc_id = 1, svc_name = ''General Consultation'', duration_minutes = 30\<rparr>"
  have s: "''09:00'' \<in> set ALL_SLOTS" by (simp add: ALL_SLOTS_value)
  have e: "appointments init_db = []" by (simp add: init_db_def)
  have c: "create_check (Date 2026 11 3) (demo_payload ''09:00'') init_db = Inr ?svc"
    using s
    by (simp add: create_check_def demo_payload_simps demo_date_allowed get_service_init
                  count_booked_for_day_def count_booked_for_slot_def e DAILY_CAPACITY_16)
  have st: "?st = \<lparr>call_A = Returned (Inr (joined ?row1 ?svc)),
                   call_B = Returned (Inr (joined ?row2 ?svc)),
                   tables = init_db\<lparr>appointments := [?row1, ?row2]\<rparr>\<rparr>"
    by (simp add: interleave_def schedule_step_def call_step_simps c create_insert_value e
                  lastrowid_def inserted_row_def)
  have 1: "succeeded (call_A ?st)" and 2: "succeeded (call_B ?st)"
    unfolding st by (simp_all add: succeeded_def)
  have 3: "count_booked_on_slot 1 (Date 2026 11 3) ''09:00'' (tables ?st) = 2"
    unfolding st
    by (simp add: count_booked_on_slot_def inserted_row_def demo_payload_def demo_date_parse)
  have 4: "map appt_id (appointments (tables ?st)) = [1, 2]"
    unfolding st by (simp add: inserted_row_def)
  have 5: "map status (appointments (tables ?st)) = [''booked'', ''booked'']"
    unfolding st by (simp add: inserted_row_def)
  have cr: "create_appointment (Date 2026 11 3) ''2026-11-03T08:00:00'' (demo_payload ''09:00'')
              init_db = Inr (joined ?row1 ?svc, init_db\<lparr>appointments := [?row1]\<rparr>)"
    by (simp add: create_appointment_steps c create_insert_value e lastrowid_def)
  have d: "count_booked_for_day 1 ''2026-11-03'' (init_db\<lparr>appointments := [?row1]\<rparr>) = 1"
    by (simp add: count_booked_for_day_def inserted_row_def demo_payload_def)
  have 6: "call_B (interleave ?a ?a [Caller_A, Caller_A, Caller_B, Caller_B] init_db) =
             Returned (Inl SlotTaken)"
    using calls_in_turn [OF refl refl refl cr, of "''2026-11-03T08:00:00''"]
    by (simp add: demo_payload_simps d DAILY_CAPACITY_16)
  show ?thesis
    by (rule conjI [OF 1 conjI [OF 2 conjI [OF 3 conjI [OF 4 conjI [OF 5 6]]]]])
qed

subsection \<open>Availability aggregator: the calendar\<close>

lemma append_less_same_length:
  "length u = length v \<Longrightarrow> u < v \<Longrightarrow> u @ s < v @ (t::string)"
  by (induction u v rule: list_induct2) auto

lemma append_less_prefix: "p @ a < p @ b \<longleftrightarrow> a < (b::string)"
  by (induction p) auto

lemma append_le_prefix: "p @ a \<le> p @ b \<longleftrightarrow> a \<le> (b::string)"
  by (induction p) auto

lemma pad2_less:
  assumes "a < b" "b < 100"
  shows "pad2 a < pad2 b"
proof -
  have d: "a div 10 < 10" "b div 10 < 10" "a mod 10 < 10" "b mod 10 < 10"
    using assms by simp_all
  have m: "a div 10 mod 10 = a div 10" "b div 10 mod 10 = b div 10"
    using d by simp_all
  have "a div 10 < b div 10 \<or> a div 10 = b div 10 \<and> a mod 10 < b mod 10"
  proof (rule ccontr)
    assume n: "\<not> ?thesis"
    have e: "a = 10 * (a div 10) + a mod 10" "b = 10 * (b div 10) + b mod 10" by simp_all
    show False
    proof (cases "a div 10 = b div 10")
      case True
      with n have "b mod 10 \<le> a mod 10" by simp
      with True e assms(1) show False by linarith
    next
      case False
      with n have "b div 10 < a div 10" by simp
      then have "10 * (b div 10) + 10 \<le> 10 * (a div 10)" by simp
      with e d assms(1) show False by linarith
    qed
  qed
  then show ?thesis
    unfolding pad2_def m
    by (auto simp: digit_char_less [OF d(1,2)] digit_char_less [OF d(3,4)]
                   digit_char_eq [OF d(1,2)])
qed

lemma pad2_le: "a \<le> b \<Longrightarrow> b < 100 \<Longrightarrow> pad2 a \<le> pad2 b"
  using pad2_less [of a b] by (cases "a = b") (auto simp: less_imp_le)

lemma pad4_pad2: "n < 10000 \<Longrightarrow> pad4 n = pad2 (n div 100) @ pad2 (n mod 100)"
proof -
  have 1: "n div 100 div 10 = n div 1000" by (simp add: div_mult2_eq)
  have "n mod 100 = 10 * (n div 10 mod 10) + n mod 10"
    using mod_mult2_eq [of n 10 10] by simp
  then have "n mod 100 div 10 = n div 10 mod 10" by simp
  then have 2: "n mod 100 div 10 mod 10 = n div 10 mod 10" by simp
  have 3: "n mod 100 mod 10 = n mod 10"
    by (simp add: mod_mod_cancel)
  show ?thesis by (simp add: pad4_def pad2_def 1 2 3)
qed

lemma length_pad: "length (pad2 n) = 2" "length (pad4 n) = 4"
  by (simp_all add: pad2_def pad4_def)

lemma pad4_less:
  assumes "a < b" "b < 10000"
  shows "pad4 a < pad4 b"
proof -
  have d: "a div 100 < 100" "b div 100 < 100" "a mod 100 < 100" "b mod 100 < 100"
    using assms by simp_all
  have c: "a div 100 < b div 100 \<or> a div 100 = b div 100 \<and> a mod 100 < b mod 100"
  proof (rule ccontr)
    assume n: "\<not> ?thesis"
    have e: "a = 100 * (a div 100) + a mod 100" "b = 100 * (b div 100) + b mod 100" by simp_all
    show False
    proof (cases "a div 100 = b div 100")
      case True
      with n have "b mod 100 \<le> a mod 100" by simp
      with True e assms(1) show False by linarith
    next
      case False
      with n have "b div 100 < a div 100" by simp
      then have "100 * (b div 100) + 100 \<le> 100 * (a div 100)" by simp
      with e d assms(1) show False by linarith
    qed
  qed
  have p: "pad4 a = pad2 (a div 100) @ pad2 (a mod 100)" "pad4 b = pad2 (b div 100) @ pad2 (b mod 100)"
    using assms by (simp_all add: pad4_pad2)
  from c show ?thesis
  proof
    assume "a div 100 < b div 100"
    then have "pad2 (a div 100) < pad2 (b div 100)" using d(2) by (rule pad2_less)
    then show ?thesis unfolding p by (rule append_less_same_length [rotated]) (simp add: length_pad)
  next
    assume e: "a div 100 = b div 100 \<and> a mod 100 < b mod 100"
    then have "pad2 (a mod 100) < pad2 (b mod 100)" using d(4) by (simp add: pad2_less)
    then show ?thesis unfolding p using e by (simp add: append_less_prefix)
  qed
qed

lemma strftime_first_le:
  assumes "1 \<le> k" "k \<le> 31"
  shows "strftime_Ymd (Date y m 1) \<le> strftime_Ymd (Date y m k)"
proof -
  have "pad2 (nat 1) \<le> pad2 (nat k)"
    using assms by (intro pad2_le) simp_all
  then show ?thesis
    unfolding strftime_Ymd_def date.sel append_assoc [symmetric]
    by (simp only: append_le_prefix)
qed

lemma strftime_lt_next_month:
  assumes "1 \<le> m" "m < 12"
  shows "strftime_Ymd (Date y m k) < strftime_Ymd (Date y (m + 1) 1)"
proof -
  have "pad2 (nat m) < pad2 (nat (m + 1))"
    using assms by (intro pad2_less) simp_all
  then have "pad2 (nat m) @ (''-'' @ pad2 (nat k)) < pad2 (nat (m + 1)) @ (''-'' @ pad2 (nat 1))"
    by (rule append_less_same_length [rotated]) (simp add: length_pad)
  then show ?thesis
    unfolding strftime_Ymd_def date.sel
    by (simp only: append_less_prefix append_assoc [symmetric, of "pad4 (nat y)" "''-''"])
qed

lemma strftime_lt_next_year:
  assumes "1 \<le> y" "y < 9999"
  shows "strftime_Ymd (Date y m k) < strftime_Ymd (Date (y + 1) 1 1)"
proof -
  have "pad4 (nat y) < pad4 (nat (y + 1))"
    using assms by (intro pad4_less) simp_all
  then show ?thesis
    unfolding strftime_Ymd_def date.sel
    by (rule append_less_same_length [rotated]) (simp add: length_pad)
qed

lemma fold_counts:
  fixes rows :: "appointment list" and m :: "string \<rightharpoonup> nat"
  defines "f \<equiv> \<lambda>(a::appointment) (m::string \<rightharpoonup> nat).
                  m(appt_date a \<mapsto> (case m (appt_date a) of None \<Rightarrow> 1 | Some c \<Rightarrow> c + 1))"
  shows "fold f rows m ds =
     (if filter (\<lambda>a. appt_date a = ds) rows = [] then m ds
      else Some ((case m ds of None \<Rightarrow> 0 | Some c \<Rightarrow> c) + length (filter (\<lambda>a. appt_date a = ds) rows)))"
proof (induction rows arbitrary: m)
  case Nil
  show ?case by simp
next
  case (Cons a rows)
  have fa: "f a m ds = (if appt_date a = ds
                        then Some ((case m ds of None \<Rightarrow> 0 | Some c \<Rightarrow> c) + 1) else m ds)"
    by (simp add: f_def split: option.splits)
  have "fold f (a # rows) m ds = fold f rows (f a m) ds" by simp
  also have "\<dots> = (if filter (\<lambda>a. appt_date a = ds) rows = [] then f a m ds
      else Some ((case f a m ds of None \<Rightarrow> 0 | Some c \<Rightarrow> c) + length (filter (\<lambda>a. appt_date a = ds) rows)))"
    by (rule Cons.IH)
  also have "\<dots> = (if filter (\<lambda>a. appt_date a = ds) (a # rows) = [] then m ds
      else Some ((case m ds of None \<Rightarrow> 0 | Some c \<Rightarrow> c) + length (filter (\<lambda>a. appt_date a = ds) (a # rows))))"
    unfolding fa by (cases "appt_date a = ds") simp_all
  finally show ?case .
qed

lemma calendar_counts_get:
  "(case calendar_counts sid lo hi db ds of None \<Rightarrow> 0 | Some n \<Rightarrow> n) =
     (if lo \<le> ds \<and> ds < hi then count_booked_for_day sid ds db else 0)"
proof -
  let ?P = "\<lambda>a::appointment. status a = ''booked'' \<and> service_id a = sid \<and> lo \<le> appt_date a \<and> appt_date a < hi"
  have "(case calendar_counts sid lo hi db ds of None \<Rightarrow> 0 | Some n \<Rightarrow> n) =
          length (filter (\<lambda>a. appt_date a = ds) (filter ?P (appointments db)))"
    unfolding calendar_counts_def fold_counts by simp
  also have "\<dots> = length (filter (\<lambda>a. ?P a \<and> appt_date a = ds) (appointments db))"
    by (simp add: conj_commute)
  also have "\<dots> = (if lo \<le> ds \<and> ds < hi then count_booked_for_day sid ds db else 0)"
  proof (cases "lo \<le> ds \<and> ds < hi")
    case True
    then have "(\<lambda>a. ?P a \<and> appt_date a = ds) =
               (\<lambda>a. status a = ''booked'' \<and> service_id a = sid \<and> appt_date a = ds)"
      by (intro ext) auto
    then have "length (filter (\<lambda>a. ?P a \<and> appt_date a = ds) (appointments db)) =
               count_booked_for_day sid ds db"
      by (simp only: count_booked_for_day_def)
    then show ?thesis by (simp only: if_P [OF True])
  next
    case False
    then have "(\<lambda>a. ?P a \<and> appt_date a = ds) = (\<lambda>a. False)"
      by (intro ext) auto
    then have "length (filter (\<lambda>a. ?P a \<and> appt_date a = ds) (appointments db)) = 0"
      by simp
    then show ?thesis by (simp only: if_not_P [OF False])
  qed
  finally show ?thesis .
qed

lemma days_loop_stop: "\<not> date_lt d n \<Longrightarrow> days_loop d n today counts sid days = Inr days"
  by (subst days_loop.simps) simp

lemma days_loop_step:
  "date_lt d n \<Longrightarrow> date_add_day d = Inr d' \<Longrightarrow>
     days_loop d n today counts sid days =
       days_loop d' n today counts sid (days @ [day_entry d today counts sid])"
  by (subst days_loop.simps) simp

lemma days_loop_month:
  assumes m: "1 \<le> m" "m \<le> 12"
    and n: "n = (if m = 12 then Date (y + 1) 1 1 else Date y (m + 1) 1)"
    and y: "y < 9999 \<or> m < 12"
    and k: "1 \<le> k" "k \<le> days_in_month y m"
  shows "days_loop (Date y m k) n today counts sid days =
           Inr (days @ map (\<lambda>j. day_entry (Date y m j) today counts sid) [k..days_in_month y m])"
  using k
proof (induction "nat (days_in_month y m - k)" arbitrary: k days)
  case 0
  then have kd: "k = days_in_month y m" by simp
  have lt: "date_lt (Date y m k) n" using m by (simp add: n date_lt_iff)
  have add: "date_add_day (Date y m k) = Inr n"
    using m y by (auto simp: date_add_day_def kd n)
  have stop: "\<not> date_lt n n" by (simp add: date_lt_def)
  have up: "[k..days_in_month y m] = [k]" by (simp add: kd)
  show ?case
    unfolding days_loop_step [OF lt add] days_loop_stop [OF stop] up by simp
next
  case (Suc x)
  then have kd: "k < days_in_month y m" by simp
  have lt: "date_lt (Date y m k) n" using m by (simp add: n date_lt_iff)
  have add: "date_add_day (Date y m k) = Inr (Date y m (k + 1))"
    using kd by (simp add: date_add_day_def)
  have x: "x = nat (days_in_month y m - (k + 1))" using Suc(2) by simp
  have up: "[k..days_in_month y m] = k # [k + 1..days_in_month y m]"
    using kd by (simp add: upto_rec1)
  have "1 \<le> k + 1" "k + 1 \<le> days_in_month y m" using Suc.prems kd by simp_all
  from Suc(1) [OF x this] show ?case
    unfolding days_loop_step [OF lt add] up by simp
qed

lemma level_spec: "level c = (if c \<le> 5 then ''Low'' else if 6 \<le> c \<and> c \<le> 12 then ''Medium'' else ''High'')"
  by (simp add: level_def)

lemma day_entry_value:
  assumes "case sid of None \<Rightarrow> counts = Map.empty
           | Some s \<Rightarrow> counts = calendar_counts s lo hi db \<and>
                       lo \<le> strftime_Ymd d \<and> strftime_Ymd d < hi"
  shows "day_entry d today counts sid =
           day_entry d today
             (case sid of None \<Rightarrow> Map.empty
              | Some s \<Rightarrow> (\<lambda>ds. Some (count_booked_for_day s ds db))) sid"
proof (cases sid)
  case None
  with assms have "counts = Map.empty" by simp
  then show ?thesis by (simp add: None)
next
  case (Some s)
  with assms have c: "counts = calendar_counts s lo hi db"
    and r: "lo \<le> strftime_Ymd d \<and> strftime_Ymd d < hi" by simp_all
  have g: "(case counts (strftime_Ymd d) of None \<Rightarrow> 0 | Some n \<Rightarrow> n) =
             count_booked_for_day s (strftime_Ymd d) db"
    unfolding c calendar_counts_get by (simp only: if_P [OF r])
  show ?thesis
    unfolding day_entry_def Let_def g by (simp add: Some)
qed

lemma calendar_load_value:
  assumes "is_month_allowed today month0 = Inr True"
    and "strptime_Ym month0 = Inr first_day"
    and "year first_day < 9999 \<or> month first_day < 12"
    and "\<forall>s. sid = Some s \<longrightarrow> (\<exists>svc. get_service s db = Inr svc)"
  shows "calendar_load today month0 sid db =
           Inr \<lparr>cal_month = month0, cal_service_id = sid, cal_daily_capacity = DAILY_CAPACITY,
                cal_days =
                  map (\<lambda>d. day_entry d today
                              (case sid of None \<Rightarrow> Map.empty
                               | Some s \<Rightarrow> (\<lambda>ds. Some (count_booked_for_day s ds db))) sid)
                    (month_days (year first_day) (month first_day))\<rparr>"
proof -
  let ?text = "case sid of None \<Rightarrow> Map.empty
               | Some s \<Rightarrow> (\<lambda>ds. Some (count_booked_for_day s ds db))"
  define y where "y = year first_day"
  define m where "m = month first_day"
  define n where "n = (if m = 12 then Date (y + 1) 1 1 else Date y (m + 1) 1)"
  define counts where "counts = (case sid of None \<Rightarrow> Map.empty
      | Some s \<Rightarrow> calendar_counts s (strftime_Ymd first_day) (strftime_Ymd n) db)"
  from strptime_Ym_valid [OF assms(2)] have v: "valid_date first_day" and d1: "day first_day = 1"
    by blast+
  have fd: "first_day = Date y m 1" using d1 by (cases first_day) (simp add: y_def m_def)
  have b: "1 \<le> y" "y \<le> 9999" "1 \<le> m" "m \<le> 12" using v by (simp_all add: fd valid_date_def)
  have ym: "y < 9999 \<or> m < 12" using assms(3) by (simp add: y_def m_def)
  have fdm: "first_day_of_month first_day = first_day" by (simp add: fd first_day_of_month_def)
  have nm: "(if month first_day = 12 then mk_date (year first_day + 1) 1 1
             else mk_date (year first_day) (month first_day + 1) 1) = Inr n"
    using b ym by (auto simp: fd n_def mk_date_def valid_first)
  have cnt: "(case sid of None \<Rightarrow> Inr Map.empty
              | Some s \<Rightarrow> (case get_service s db of Inl e \<Rightarrow> Inl e
                  | Inr svc \<Rightarrow> Inr (calendar_counts s (strftime_Ymd first_day) (strftime_Ymd n) db)))
             = (Inr counts :: exn + (string \<rightharpoonup> nat))"
  proof (cases sid)
    case None
    then show ?thesis by (simp add: counts_def)
  next
    case (Some s)
    with assms(4) obtain svc where "get_service s db = Inr svc" by blast
    then show ?thesis by (simp add: counts_def Some)
  qed
  have k: "(1::int) \<le> 1" "1 \<le> days_in_month y m"
    using days_in_month_bounds(1) [of y m] by simp_all
  have loop: "days_loop first_day n today counts sid [] =
           Inr ([] @ map (\<lambda>j. day_entry (Date y m j) today counts sid) [1..days_in_month y m])"
    unfolding fd by (rule days_loop_month [OF b(3,4) n_def ym k])
  have entry: "day_entry (Date y m j) today counts sid = day_entry (Date y m j) today ?text sid"
    if j: "j \<in> set [1..days_in_month y m]" for j
  proof (rule day_entry_value [where lo = "strftime_Ymd first_day" and hi = "strftime_Ymd n"])
    have jb: "1 \<le> j" "j \<le> 31" using j days_in_month_bounds(2) [of y m] by auto
    have lo: "strftime_Ymd first_day \<le> strftime_Ymd (Date y m j)"
      unfolding fd by (rule strftime_first_le [OF jb])
    have hi: "strftime_Ymd (Date y m j) < strftime_Ymd n"
    proof (cases "m = 12")
      case True
      then have "y < 9999" using ym by simp
      then show ?thesis unfolding n_def using True b(1) by (simp add: strftime_lt_next_year)
    next
      case False
      then have "m < 12" using b(4) by simp
      then show ?thesis unfolding n_def using False b(3) by (simp add: strftime_lt_next_month)
    qed
    show "case sid of None \<Rightarrow> counts = Map.empty
           | Some s \<Rightarrow> counts = calendar_counts s (strftime_Ymd first_day) (strftime_Ymd n) db \<and>
                       strftime_Ymd first_day \<le> strftime_Ymd (Date y m j) \<and>
                       strftime_Ymd (Date y m j) < strftime_Ymd n"
      using lo hi by (simp add: counts_def split: option.splits)
  qed
  have days: "map (\<lambda>j. day_entry (Date y m j) today counts sid) [1..days_in_month y m] =
              map (\<lambda>d. day_entry d today ?text sid) (month_days y m)"
    unfolding month_days_def map_map comp_def by (rule map_cong [OF refl entry])
  have "calendar_load today month0 sid db =
          Inr \<lparr>cal_month = month0, cal_service_id = sid, cal_daily_capacity = DAILY_CAPACITY,
               cal_days = map (\<lambda>d. day_entry d today ?text sid) (month_days y m)\<rparr>"
    unfolding calendar_load_def Let_def
    by (simp only: assms(1,2) fdm nm cnt loop days sum.case if_False not_True_eq_False append_Nil)
  then show ?thesis by (simp only: y_def m_def)
qed

lemma unpadded_payload_time: "(unpadded_payload u)\<lparr>appt_time := t\<rparr> = unpadded_payload t"
  by (simp add: unpadded_payload_def)

lemma unpadded_run_rows:
  "\<forall>a \<in> set (appointments (run (map (\<lambda>t. Create today now (unpadded_payload t)) ts) init_db)).
      appt_date a = ''2026-11-3''"
proof (induction ts rule: rev_induct)
  case Nil
  show ?case by (simp add: run_Nil init_db_def)
next
  case (snoc t ts)
  let ?db = "run (map (\<lambda>t. Create today now (unpadded_payload t)) ts) init_db"
  have r: "run (map (\<lambda>t. Create today now (unpadded_payload t)) (ts @ [t])) init_db =
             apply_request (Create today now (unpadded_payload t)) ?db"
    by (simp add: run_snoc)
  from apply_request_cases [of "Create today now (unpadded_payload t)" ?db] show ?case
    unfolding r using snoc
    by (auto simp: inserted_row_def unpadded_payload_simps)
qed

lemma unpadded_run_count:
  assumes "distinct ts" "set ts \<subseteq> set ALL_SLOTS"
  shows "count_booked_for_day 1 ''2026-11-3''
           (run (map (\<lambda>t. Create (Date 2026 11 3) ''2026-11-03T08:00:00'' (unpadded_payload t)) ts)
              init_db) = length ts"
proof -
  let ?cs = "map (\<lambda>t. (Date 2026 11 3, ''2026-11-03T08:00:00'', unpadded_payload t)) ts"
  have "card (set ts) \<le> card (set ALL_SLOTS)" by (rule card_mono [OF finite_set assms(2)])
  then have len: "length ts \<le> DAILY_CAPACITY"
    using assms(1) distinct_ALL_SLOTS by (simp add: distinct_card DAILY_CAPACITY_def)
  have z: "count_booked_for_slot 1 ''2026-11-3'' t init_db = 0" for t
    by (simp add: count_booked_for_slot_def init_db_def)
  have z2: "count_booked_for_day 1 ''2026-11-3'' init_db = 0"
    by (simp add: count_booked_for_day_def init_db_def)
  from book_all_slots [of "Date 2026 11 3" "unpadded_payload ''09:00''" init_db _ ts
                          "''2026-11-03T08:00:00''"]
  obtain db' where b: "book_all ?cs init_db = Inr db'"
    using unpadded_date_allowed get_service_init assms len
    by (auto simp: unpadded_payload_simps unpadded_payload_time z z2)
  have r: "run (map (\<lambda>t. Create (Date 2026 11 3) ''2026-11-03T08:00:00'' (unpadded_payload t)) ts)
             init_db = db'"
    using book_all_run [OF b] by (simp add: comp_def)
  have "count_booked_for_day 1 ''2026-11-3'' db' =
          count_booked_for_day 1 ''2026-11-3'' init_db + length ?cs"
    using book_all_count [OF b, of 1 "''2026-11-3''"] by (simp add: unpadded_payload_simps)
  then show ?thesis unfolding r z2 by simp
qed

lemma count_on_day_one_text:
  assumes "\<forall>a \<in> set (appointments db). appt_date a = ds" "strptime_Ymd ds = Inr d"
  shows "count_booked_on_day sid d db = count_booked_for_day sid ds db"
proof -
  have "filter (\<lambda>a. status a = ''booked'' \<and> service_id a = sid \<and>
                     strptime_Ymd (appt_date a) = Inr d) (appointments db) =
        filter (\<lambda>a. status a = ''booked'' \<and> service_id a = sid \<and> appt_date a = ds)
          (appointments db)"
    by (rule filter_cong [OF refl]) (use assms in auto)
  then show ?thesis by (simp only: count_booked_on_day_def count_booked_for_day_def)
qed

lemma six_unpadded_db_rows: "\<forall>a \<in> set (appointments six_unpadded_db). appt_date a = ''2026-11-3''"
  unfolding six_unpadded_db_def by (rule unpadded_run_rows)

lemma six_unpadded_db_count: "count_booked_on_day 1 (Date 2026 11 3) six_unpadded_db = 6"
proof -
  have "count_booked_for_day 1 ''2026-11-3'' six_unpadded_db = 6"
    unfolding six_unpadded_db_def
    by (subst unpadded_run_count) (simp_all add: ALL_SLOTS_value)
  then show ?thesis
    using count_on_day_one_text [OF six_unpadded_db_rows strptime_examples(1), of 1] by simp
qed

lemma length_strftime_Ymd: "length (strftime_Ymd d) = 10"
  by (simp add: strftime_Ymd_def pad4_def pad2_def)

lemma six_unpadded_db_labels: "count_booked_for_day sid (strftime_Ymd d) six_unpadded_db = 0"
proof (rule count_for_slot_not_stored(2), rule ballI)
  fix a assume "a \<in> set (appointments six_unpadded_db)"
  then have "length (appt_date a) = 9" using six_unpadded_db_rows by simp
  then show "appt_date a \<noteq> strftime_Ymd d" using length_strftime_Ymd [of d] by auto
qed

lemma six_unpadded_db_service:
  "get_service 1 six_unpadded_db =
     Inr \<lparr>svc_id = 1, svc_name = ''General Consultation'', duration_minutes = 30\<rparr>"
proof -
  have "services six_unpadded_db = services init_db"
    by (simp add: six_unpadded_db_def run_services)
  from get_service_services [OF this] show ?thesis by (simp only: get_service_init)
qed

lemma six_unpadded_db_calendar:
  "calendar_load (Date 2026 11 3) ''2026-11'' (Some 1) six_unpadded_db =
     Inr \<lparr>cal_month = ''2026-11'', cal_service_id = Some 1, cal_daily_capacity = DAILY_CAPACITY,
          cal_days =
            map (\<lambda>d. \<lparr>day_date = strftime_Ymd d, day_count = 0, day_level = ''Low'',
                       day_is_full = False, day_disabled = date_lt d (Date 2026 11 3)\<rparr>)
              (month_days 2026 11)\<rparr>"
proof -
  have a: "is_month_allowed (Date 2026 11 3) ''2026-11'' = Inr True" by code_simp
  have p: "strptime_Ym ''2026-11'' = Inr (Date 2026 11 1)" by code_simp
  have g: "\<forall>s. Some 1 = Some s \<longrightarrow> (\<exists>svc. get_service s six_unpadded_db = Inr svc)"
    by (simp add: six_unpadded_db_service)
  have e: "day_entry d (Date 2026 11 3)
             (\<lambda>ds. Some (count_booked_for_day 1 ds six_unpadded_db)) (Some 1) =
           \<lparr>day_date = strftime_Ymd d, day_count = 0, day_level = ''Low'',
            day_is_full = False, day_disabled = date_lt d (Date 2026 11 3)\<rparr>" for d
    by (simp add: day_entry_def Let_def six_unpadded_db_labels level_def DAILY_CAPACITY_16)
  from calendar_load_value [OF a p _ g] show ?thesis by (simp add: e)
qed

lemma month_days_nov: "month_days 2026 11 ! 2 = Date 2026 11 3" "length (month_days 2026 11) = 30"
  by (simp_all add: month_days_def days_in_month_def nth_upto)

text \<open>
  Claim C5, at a day whose bookings the calendar does not count. Six slots of service 1
  are booked for 3 November 2026, the date written \<^verbatim>\<open>2026-11-3\<close>. \<open>calendar_load\<close> for
  November 2026 and service 1 reports a count of 0 and the level Low for every day of the
  month, that day included, where the day has six booked appointments and the level of
  the specification is Medium.
\<close>

theorem calendar_load_miscount:
  "\<not> isl (calendar_load (Date 2026 11 3) ''2026-11'' (Some 1) six_unpadded_db) \<and>
   map day_count
     (cal_days (projr (calendar_load (Date 2026 11 3) ''2026-11'' (Some 1) six_unpadded_db)))
     = replicate 30 0 \<and>
   cal_days (projr (calendar_load (Date 2026 11 3) ''2026-11'' (Some 1) six_unpadded_db)) ! 2
     = \<lparr>day_date = ''2026-11-03'', day_count = 0, day_level = ''Low'',
        day_is_full = False, day_disabled = False\<rparr> \<and>
   count_booked_on_day 1 (Date 2026 11 3) six_unpadded_db = 6 \<and>
   day_load_spec (Date 2026 11 3) (Some 1) six_unpadded_db (Date 2026 11 3)
     = \<lparr>day_date = ''2026-11-03'', day_count = 6, day_level = ''Medium'',
        day_is_full = False, day_disabled = False\<rparr>"
proof -
  let ?c = "calendar_load (Date 2026 11 3) ''2026-11'' (Some 1) six_unpadded_db"
  have 1: "\<not> isl ?c" by (simp add: six_unpadded_db_calendar)
  have 2: "map day_count (cal_days (projr ?c)) = replicate 30 0"
    by (simp add: six_unpadded_db_calendar comp_def map_replicate_const month_days_nov)
  have 3: "cal_days (projr ?c) ! 2 =
             \<lparr>day_date = ''2026-11-03'', day_count = 0, day_level = ''Low'',
              day_is_full = False, day_disabled = False\<rparr>"
    by (simp add: six_unpadded_db_calendar month_days_nov strftime_examples date_lt_def)
  have 4: "count_booked_on_day 1 (Date 2026 11 3) six_unpadded_db = 6"
    by (rule six_unpadded_db_count)
  have 5: "day_load_spec (Date 2026 11 3) (Some 1) six_unpadded_db (Date 2026 11 3) =
             \<lparr>day_date = ''2026-11-03'', day_count = 6, day_level = ''Medium'',
              day_is_full = False, day_disabled = False\<rparr>"
    by (simp add: day_load_spec_def six_unpadded_db_count strftime_examples DAILY_CAPACITY_16
                  date_lt_def)
  show ?thesis
    by (rule conjI [OF 1 conjI [OF 2 conjI [OF 3 conjI [OF 4 5]]]])
qed

text \<open>
  When every stored date is canonical the calendar is the one of the specification: each
  day of the month, in order, with the number of booked appointments of that day.
\<close>

lemma calendar_load_canonical:
  assumes "is_month_allowed today month0 = Inr True"
    and "strptime_Ym month0 = Inr first_day"
    and "year first_day < 9999 \<or> month first_day < 12"
    and "\<forall>s. sid = Some s \<longrightarrow> (\<exists>svc. get_service s db = Inr svc)"
    and "canonical_rows db"
  shows "calendar_load today month0 sid db =
           Inr \<lparr>cal_month = month0, cal_service_id = sid, cal_daily_capacity = DAILY_CAPACITY,
                cal_days = map (day_load_spec today sid db)
                             (month_days (year first_day) (month first_day))\<rparr>"
proof -
  let ?text = "case sid of None \<Rightarrow> Map.empty
               | Some s \<Rightarrow> (\<lambda>ds. Some (count_booked_for_day s ds db))"
  from strptime_Ym_valid [OF assms(2)] have v: "valid_date first_day" by blast
  have e: "day_entry d today ?text sid = day_load_spec today sid db d"
    if "d \<in> set (month_days (year first_day) (month first_day))" for d
  proof -
    from that v have vd: "valid_date d"
      by (auto simp: month_days_def valid_date_def)
    show ?thesis
    proof (cases sid)
      case None
      then show ?thesis by (simp add: day_entry_def day_load_spec_def level_spec)
    next
      case (Some s)
      then show ?thesis
        by (simp add: day_entry_def day_load_spec_def Let_def level_spec
                      count_on_day_text [OF assms(5) vd])
    qed
  qed
  have "map (\<lambda>d. day_entry d today ?text sid) (month_days (year first_day) (month first_day)) =
        map (day_load_spec today sid db) (month_days (year first_day) (month first_day))"
    by (rule map_cong [OF refl e])
  with calendar_load_value [OF assms(1-4)] show ?thesis by (simp only:)
qed

end
